theory Spec2Isabelle
  imports Complex_Main "HOL-Library.Word" "HOL-Library.Char_ord"
begin

section \<open>Constants and helpers\<close>

text \<open>
  The consolidated order book of \<^verbatim>\<open>src/orderbook.cpp\<close>.  Quantities are
  \<^verbatim>\<open>uint32_t\<close> and are modelled as 32-bit words, so every addition and
  subtraction wraps as in the source.  Tick indices are C \<^verbatim>\<open>int\<close>s that are
  only stored and compared, never added, and are modelled as integers together with the
  three literal values the source singles out (\<open>-1\<close>, \<open>INT_MAX\<close>, \<open>INT_MIN\<close>).
  Prices are \<^verbatim>\<open>double\<close> in the source; the model computes with exact
  real numbers, so rounding of the binary floating-point format is abstracted away.  The
  statements about every price keep \<open>p2i\<close> and \<open>i2p\<close> folded and so hold of any
  codec; the examples use prices (10, 10.01, 19.5, 20 and 10.25390625) at which the
  source computes the same ticks, and for their ticks the \<^verbatim>\<open>double\<close> nearest to the
  price given here.
\<close>

type_synonym u32 = "32 word"

datatype error = out_of_range | runtime_error

definition TICK :: real where
  "TICK = 1 / 100"

definition INV_TICK :: int where
  "INV_TICK = 100"

definition NUM_VENUES :: nat where
  "NUM_VENUES = 14"

definition INT_MAX :: int where
  "INT_MAX = 2147483647"

definition INT_MIN :: int where
  "INT_MIN = - 2147483648"

text \<open>
  \<^verbatim>\<open>int(p*INV_TICK + 0.5)\<close>: the conversion of a \<^verbatim>\<open>double\<close> to
  \<^verbatim>\<open>int\<close> truncates towards zero.  The product and the sum are exact here, where
  the source rounds each to a \<^verbatim>\<open>double\<close>: next to a half-tick boundary the two can
  differ (for the \<^verbatim>\<open>double\<close> 0.015 the source computes tick 2, this definition
  tick 1).  The result is an unbounded integer; the source's conversion is undefined
  outside the range of a 32-bit \<^verbatim>\<open>int\<close>.

  \<^verbatim>\<open>idx*TICK\<close>: the source rounds the product with the \<^verbatim>\<open>double\<close> 0.01 (tick
  57 gives 0.5700000000000001, tick 1999 gives 19.990000000000002); \<open>i2p\<close> is the exact
  hundredth.
\<close>

definition p2i :: "real \<Rightarrow> int" where
  "p2i p = (let x = p * of_int INV_TICK + 1 / 2 in if 0 \<le> x then \<lfloor>x\<rfloor> else \<lceil>x\<rceil>)"

definition i2p :: "int \<Rightarrow> real" where
  "i2p i = of_int i * TICK"

text \<open>
  Modelled from the spec: the table \<^verbatim>\<open>VENUE_CODE\<close> that \<^verbatim>\<open>venue_string\<close>
  indexes is not declared in the source.  Section 6 of the specification gives the
  single-character code of each venue in the order of the source's \<^verbatim>\<open>VENUES\<close>
  array: C, I, B, M, A, P, G, E, T, R, Z, N, 2, X.
\<close>

definition VENUE_CODE :: "char list" where
  "VENUE_CODE = ''CIBMAPGETRZN2X''"

text \<open>
  Modelled from the spec: \<^verbatim>\<open>on_add\<close> looks its \<^verbatim>\<open>char\<close> argument up with
  \<^verbatim>\<open>VENUE_MAP.at(venue_code)\<close>, while the \<^verbatim>\<open>VENUE_MAP\<close> the source declares is
  keyed by venue names.  The lookup by code is the position of the code in the table of
  Section 6; \<^verbatim>\<open>at\<close> throws \<^verbatim>\<open>std::out_of_range\<close> for a code that is not there.
\<close>

fun index_of :: "char \<Rightarrow> char list \<Rightarrow> nat option" where
  "index_of c [] = None"
| "index_of c (x # xs) = (if x = c then Some 0 else map_option Suc (index_of c xs))"

definition VENUE_MAP :: "char \<Rightarrow> nat option" where
  "VENUE_MAP c = index_of c VENUE_CODE"

section \<open>PriceLevel\<close>

record PriceLevel =
  vqty :: "u32 list"
  agg :: u32

text \<open>The value-initialised level \<^verbatim>\<open>vqty{}, agg{0}\<close>.\<close>

definition PriceLevel_init :: PriceLevel where
  "PriceLevel_init = \<lparr>vqty = replicate NUM_VENUES 0, agg = 0\<rparr>"

text \<open>
  \<^verbatim>\<open>adjust(vid, d)\<close>: the \<^verbatim>\<open>int\<close> delta is converted to \<^verbatim>\<open>uint32_t\<close> by
  the compound assignment, so both updates are additions modulo \<open>2 ^ 32\<close>; the delta is
  passed here as the word with the same bits.  The callers pass \<^verbatim>\<open>int(qty)\<close> and
  \<^verbatim>\<open>-int(qty)\<close>, which are \<open>qty\<close> and \<open>- qty\<close> modulo \<open>2 ^ 32\<close> (the
  negation of \<^verbatim>\<open>int(qty)\<close> for \<open>qty = 2 ^ 31\<close> overflows in the source; the model
  gives it the value every two's complement machine computes).
\<close>

definition adjust :: "PriceLevel \<Rightarrow> nat \<Rightarrow> u32 \<Rightarrow> PriceLevel" where
  "adjust pl v d = \<lparr>vqty = (vqty pl)[v := vqty pl ! v + d], agg = agg pl + d\<rparr>"

section \<open>SideBook\<close>

record SideBook =
  is_bid :: bool
  ticks :: "int set"
  levels :: "int \<rightharpoonup> PriceLevel"

definition SideBook_init :: "bool \<Rightarrow> SideBook" where
  "SideBook_init b = \<lparr>is_bid = b, ticks = {}, levels = Map.empty\<rparr>"

definition sentinel :: "bool \<Rightarrow> int" where
  "sentinel b = (if b then - 1 else INT_MAX)"

definition best_idx :: "SideBook \<Rightarrow> int" where
  "best_idx sb =
     (if ticks sb = {} then sentinel (is_bid sb)
      else if is_bid sb then Max (ticks sb) else Min (ticks sb))"

text \<open>\<^verbatim>\<open>best_price\<close> returns NaN for the sentinel; NaN is \<open>None\<close> here.\<close>

definition best_price :: "SideBook \<Rightarrow> real option" where
  "best_price sb =
     (let b = best_idx sb in
      if is_bid sb \<and> b = - 1 then None
      else if \<not> is_bid sb \<and> b = INT_MAX then None
      else Some (i2p b))"

text \<open>
  \<^verbatim>\<open>SideBook::add\<close>.  \<^verbatim>\<open>levels_[idx]\<close> inserts a value-initialised level when
  the key is absent.  The result \<open>INT_MIN\<close> stands for "best did not move".  The test
  against the sentinel names an identifier \<^verbatim>\<open>prev\<close> that the source declares
  nowhere; \<open>SideBook_add_with\<close> is the function as written, with the value of that
  identifier as its first argument.
\<close>

definition SideBook_add_with :: "int \<Rightarrow> SideBook \<Rightarrow> int \<Rightarrow> nat \<Rightarrow> u32 \<Rightarrow> int \<times> SideBook" where
  "SideBook_add_with prev sb i v q =
     (let pl = (case levels sb i of None \<Rightarrow> PriceLevel_init | Some l \<Rightarrow> l);
          prev_best = best_idx sb;
          first = (agg pl = 0);
          sb' = sb\<lparr>ticks := (if first then insert i (ticks sb) else ticks sb),
                   levels := (levels sb)(i \<mapsto> adjust pl v q)\<rparr>;
          new_best = best_idx sb'
      in if prev = sentinel (is_bid sb) then (INT_MIN, sb')
         else (if new_best \<noteq> prev_best then prev_best else INT_MIN, sb'))"

text \<open>
  \<open>SideBook_add\<close> reads \<^verbatim>\<open>prev\<close> as \<^verbatim>\<open>prev_best\<close>, the only variable of that
  role in scope (\<open>SideBook_add_is_with\<close> below).  The state it returns is the same for
  every reading; only the returned tick depends on it.
\<close>

definition SideBook_add :: "SideBook \<Rightarrow> int \<Rightarrow> nat \<Rightarrow> u32 \<Rightarrow> int \<times> SideBook" where
  "SideBook_add sb i v q =
     (let pl = (case levels sb i of None \<Rightarrow> PriceLevel_init | Some l \<Rightarrow> l);
          prev_best = best_idx sb;
          first = (agg pl = 0);
          sb' = sb\<lparr>ticks := (if first then insert i (ticks sb) else ticks sb),
                   levels := (levels sb)(i \<mapsto> adjust pl v q)\<rparr>;
          new_best = best_idx sb'
      in if prev_best = sentinel (is_bid sb) then (INT_MIN, sb')
         else (if new_best \<noteq> prev_best then prev_best else INT_MIN, sb'))"

text \<open>
  \<^verbatim>\<open>SideBook::remove\<close>.  \<^verbatim>\<open>levels_.at(idx)\<close> throws when the level is absent,
  before anything is changed.
\<close>

definition SideBook_remove :: "SideBook \<Rightarrow> int \<Rightarrow> nat \<Rightarrow> u32 \<Rightarrow> (error + unit) \<times> SideBook" where
  "SideBook_remove sb i v q =
     (case levels sb i of
        None \<Rightarrow> (Inl out_of_range, sb)
      | Some l \<Rightarrow>
          (let pl = adjust l v (- q) in
           if agg pl = 0
           then (Inr (), sb\<lparr>ticks := ticks sb - {i}, levels := (levels sb)(i := None)\<rparr>)
           else (Inr (), sb\<lparr>levels := (levels sb)(i \<mapsto> pl)\<rparr>)))"

section \<open>OrderBook\<close>

text \<open>
  \<^verbatim>\<open>Meta\<close> holds a pointer to one of the two side books of its own order book; the
  pointer is the tag \<open>m_sb\<close>, true for \<^verbatim>\<open>&bid_\<close>.
\<close>

record Meta =
  m_sb :: bool
  m_idx :: int
  m_vid :: nat
  m_qty :: u32

record OrderBook =
  bid_sb :: SideBook
  ask_sb :: SideBook
  omap :: "string \<rightharpoonup> Meta"

definition OrderBook_init :: OrderBook where
  "OrderBook_init = \<lparr>bid_sb = SideBook_init True, ask_sb = SideBook_init False, omap = Map.empty\<rparr>"

definition side_of :: "OrderBook \<Rightarrow> bool \<Rightarrow> SideBook" where
  "side_of b s = (if s then bid_sb b else ask_sb b)"

definition set_side :: "OrderBook \<Rightarrow> bool \<Rightarrow> SideBook \<Rightarrow> OrderBook" where
  "set_side b s sb = (if s then b\<lparr>bid_sb := sb\<rparr> else b\<lparr>ask_sb := sb\<rparr>)"

text \<open>The two result tuples of the source, as records.\<close>

record NbboChange =
  new_price :: real
  new_agg :: u32
  old_price :: real
  old_agg :: u32
  old_venue_string :: string

record ExecutionReport =
  exec_price :: real
  level_remaining :: u32
  per_venue_qty :: "u32 list"
  venue_str :: string

text \<open>
  \<^verbatim>\<open>venue_string\<close>: the codes of the venues with a non-zero quantity, in index
  order, then \<^verbatim>\<open>std::sort\<close> on the characters.
\<close>

definition venue_string :: "PriceLevel \<Rightarrow> string" where
  "venue_string pl =
     sort (map (\<lambda>i. VENUE_CODE ! i) (filter (\<lambda>i. vqty pl ! i \<noteq> 0) [0..<NUM_VENUES]))"

definition nbbo_tuple :: "SideBook \<Rightarrow> int \<Rightarrow> int \<Rightarrow> error + NbboChange" where
  "nbbo_tuple sb new_idx old_idx =
     (case levels sb new_idx of
        None \<Rightarrow> Inl out_of_range
      | Some new_pl \<Rightarrow>
          (case levels sb old_idx of
             None \<Rightarrow> Inl out_of_range
           | Some old_pl \<Rightarrow>
               Inr \<lparr>new_price = i2p new_idx, new_agg = agg new_pl,
                    old_price = i2p old_idx, old_agg = agg old_pl,
                    old_venue_string = venue_string old_pl\<rparr>))"

text \<open>
  \<^verbatim>\<open>on_add\<close> over \<open>SideBook_add_with\<close>: the handler for any value of the
  undeclared identifier.  Its body is that of \<open>on_add\<close> below.
\<close>

definition on_add_with ::
  "int \<Rightarrow> OrderBook \<Rightarrow> string \<Rightarrow> char \<Rightarrow> string \<Rightarrow> real \<Rightarrow> u32 \<Rightarrow> (error + NbboChange option) \<times> OrderBook" where
  "on_add_with prev b oid venue_code side_b price q =
     (let s = (side_b = ''BID'');
          i = p2i price
      in case VENUE_MAP venue_code of
           None \<Rightarrow> (Inl out_of_range, b)
         | Some v \<Rightarrow>
             (let (prev_best, sb) = SideBook_add_with prev (side_of b s) i v q;
                  b' = (set_side b s sb)\<lparr>omap := (omap b)(oid \<mapsto> \<lparr>m_sb = s, m_idx = i, m_vid = v, m_qty = q\<rparr>)\<rparr>
              in if prev_best \<noteq> INT_MIN
                 then (case nbbo_tuple sb i prev_best of
                         Inl e \<Rightarrow> (Inl e, b')
                       | Inr t \<Rightarrow> (Inr (Some t), b'))
                 else (Inr None, b')))"

text \<open>
  \<^verbatim>\<open>on_add\<close>.  Every side tag other than \<^verbatim>\<open>"BID"\<close> selects the ask book.  An
  exception leaves the state as it is at the throw: an unknown venue code throws before
  any change, a failing \<^verbatim>\<open>nbbo_tuple\<close> after the book and the index are updated.
\<close>

definition on_add ::
  "OrderBook \<Rightarrow> string \<Rightarrow> char \<Rightarrow> string \<Rightarrow> real \<Rightarrow> u32 \<Rightarrow> (error + NbboChange option) \<times> OrderBook" where
  "on_add b oid venue_code side_b price q =
     (let s = (side_b = ''BID'');
          i = p2i price
      in case VENUE_MAP venue_code of
           None \<Rightarrow> (Inl out_of_range, b)
         | Some v \<Rightarrow>
             (let (prev_best, sb) = SideBook_add (side_of b s) i v q;
                  b' = (set_side b s sb)\<lparr>omap := (omap b)(oid \<mapsto> \<lparr>m_sb = s, m_idx = i, m_vid = v, m_qty = q\<rparr>)\<rparr>
              in if prev_best \<noteq> INT_MIN
                 then (case nbbo_tuple sb i prev_best of
                         Inl e \<Rightarrow> (Inl e, b')
                       | Inr t \<Rightarrow> (Inr (Some t), b'))
                 else (Inr None, b')))"

definition on_cancel :: "OrderBook \<Rightarrow> string \<Rightarrow> (error + unit) \<times> OrderBook" where
  "on_cancel b oid =
     (case omap b oid of
        None \<Rightarrow> (Inr (), b)
      | Some m \<Rightarrow>
          (let b' = b\<lparr>omap := (omap b)(oid := None)\<rparr>;
               (r, sb) = SideBook_remove (side_of b' (m_sb m)) (m_idx m) (m_vid m) (m_qty m)
           in (r, set_side b' (m_sb m) sb)))"

definition on_replace ::
  "OrderBook \<Rightarrow> string \<Rightarrow> string \<Rightarrow> char \<Rightarrow> string \<Rightarrow> real \<Rightarrow> u32 \<Rightarrow> (error + NbboChange option) \<times> OrderBook" where
  "on_replace b new_oid old_oid venue_code side_b price q =
     (case on_add b new_oid venue_code side_b price q of
        (Inl e, b') \<Rightarrow> (Inl e, b')
      | (Inr res, b') \<Rightarrow>
          (case on_cancel b' old_oid of
             (Inl e, b'') \<Rightarrow> (Inl e, b'')
           | (Inr u, b'') \<Rightarrow> (Inr res, b'')))"

text \<open>
  \<^verbatim>\<open>on_execute\<close>.  The order's quantity is decremented in place first; then the
  level is adjusted; then the level is read again with \<^verbatim>\<open>levels().at(m.idx)\<close>, which
  throws when \<^verbatim>\<open>remove\<close> has just erased it.  The index entry is erased only after
  that read.  (The source reads \<^verbatim>\<open>m.idx\<close> through the erased entry for the price; the
  model takes the value the entry held.)
\<close>

definition on_execute ::
  "OrderBook \<Rightarrow> string \<Rightarrow> u32 \<Rightarrow> (error + ExecutionReport option) \<times> OrderBook" where
  "on_execute b oid exec_qty =
     (case omap b oid of
        None \<Rightarrow> (Inr None, b)
      | Some m0 \<Rightarrow>
          (let take = min exec_qty (m_qty m0);
               m = m0\<lparr>m_qty := m_qty m0 - take\<rparr>;
               b1 = b\<lparr>omap := (omap b)(oid \<mapsto> m)\<rparr>
           in case SideBook_remove (side_of b1 (m_sb m)) (m_idx m) (m_vid m) take of
                (Inl e, sb) \<Rightarrow> (Inl e, b1)
              | (Inr u, sb) \<Rightarrow>
                  (let b2 = set_side b1 (m_sb m) sb
                   in case levels sb (m_idx m) of
                        None \<Rightarrow> (Inl out_of_range, b2)
                      | Some pl \<Rightarrow>
                          (let b3 = (if m_qty m = 0 then b2\<lparr>omap := (omap b2)(oid := None)\<rparr> else b2)
                           in (Inr (Some \<lparr>exec_price = i2p (m_idx m), level_remaining = agg pl,
                                           per_venue_qty = vqty pl, venue_str = venue_string pl\<rparr>), b3)))))"

definition best_bid :: "OrderBook \<Rightarrow> real option" where
  "best_bid b = best_price (bid_sb b)"

definition best_ask :: "OrderBook \<Rightarrow> real option" where
  "best_ask b = best_price (ask_sb b)"

text \<open>
  \<^verbatim>\<open>on_batch\<close>.  An event is the tuple the source unpacks, with its command tag as
  the constructor; any other tag throws \<^verbatim>\<open>std::runtime_error("Bad cmd")\<close>.  The
  results that are not none are appended to the output list in order.  An exception of a
  handler ends the batch with the events before it applied.
\<close>

datatype event =
    Add string char string real u32
  | Cancel string
  | Replace string string char string real u32
  | Execute string u32
  | Other string

datatype batch_item = Nbbo NbboChange | Exec ExecutionReport

fun on_batch :: "OrderBook \<Rightarrow> event list \<Rightarrow> batch_item list \<Rightarrow> (error + batch_item list) \<times> OrderBook" where
  "on_batch b [] out = (Inr out, b)"
| "on_batch b (Add oid venue_code side_b price q # es) out =
     (case on_add b oid venue_code side_b price q of
        (Inl e, b') \<Rightarrow> (Inl e, b')
      | (Inr None, b') \<Rightarrow> on_batch b' es out
      | (Inr (Some r), b') \<Rightarrow> on_batch b' es (out @ [Nbbo r]))"
| "on_batch b (Execute oid exec_qty # es) out =
     (case on_execute b oid exec_qty of
        (Inl e, b') \<Rightarrow> (Inl e, b')
      | (Inr None, b') \<Rightarrow> on_batch b' es out
      | (Inr (Some r), b') \<Rightarrow> on_batch b' es (out @ [Exec r]))"
| "on_batch b (Cancel oid # es) out =
     (case on_cancel b oid of
        (Inl e, b') \<Rightarrow> (Inl e, b')
      | (Inr u, b') \<Rightarrow> on_batch b' es out)"
| "on_batch b (Replace new_oid old_oid venue_code side_b price q # es) out =
     (case on_replace b new_oid old_oid venue_code side_b price q of
        (Inl e, b') \<Rightarrow> (Inl e, b')
      | (Inr None, b') \<Rightarrow> on_batch b' es out
      | (Inr (Some r), b') \<Rightarrow> on_batch b' es (out @ [Nbbo r]))"
| "on_batch b (Other cmd # es) out = (Inl runtime_error, b)"

section \<open>The specification's reading of \<^verbatim>\<open>on_replace\<close>\<close>

text \<open>
  The specification describes a replace as an add followed by a cancel whose result is
  the result of the add.  This definition follows those words and knows nothing of
  exceptions; it is compared with \<open>on_replace\<close> of the source in claim C5.
\<close>

definition add_then_cancel ::
  "OrderBook \<Rightarrow> string \<Rightarrow> string \<Rightarrow> char \<Rightarrow> string \<Rightarrow> real \<Rightarrow> u32 \<Rightarrow> (error + NbboChange option) \<times> OrderBook" where
  "add_then_cancel b new_oid old_oid venue_code side_b price q =
     (let (res, b1) = on_add b new_oid venue_code side_b price q;
          (u, b2) = on_cancel b1 old_oid
      in (res, b2))"

section \<open>Invariants of the data model\<close>

text \<open>
  Ticks in range: not negative and below \<open>INT_MAX\<close>, so that none is mistaken for one
  of the two sentinels.
\<close>

definition ticks_in_range :: "SideBook \<Rightarrow> bool" where
  "ticks_in_range sb \<longleftrightarrow> (\<forall>t\<in>ticks sb. 0 \<le> t \<and> t < INT_MAX)"

text \<open>
  A level of the book: fourteen venue slots, a positive aggregate, and the aggregate is
  the sum of the slots as natural numbers (so no slot has wrapped around).
\<close>

definition level_ok :: "PriceLevel \<Rightarrow> bool" where
  "level_ok pl \<longleftrightarrow>
     length (vqty pl) = NUM_VENUES \<and> agg pl \<noteq> 0 \<and> unat (agg pl) = sum_list (map unat (vqty pl))"

text \<open>A side book: the tick set is the key set of the levels, and every level is sound.\<close>

definition side_ok :: "SideBook \<Rightarrow> bool" where
  "side_ok sb \<longleftrightarrow>
     finite (ticks sb) \<and> ticks sb = dom (levels sb) \<and>
     (\<forall>t pl. levels sb t = Some pl \<longrightarrow> level_ok pl)"

definition lvl_qty :: "SideBook \<Rightarrow> int \<Rightarrow> nat \<Rightarrow> nat" where
  "lvl_qty sb t v = (case levels sb t of None \<Rightarrow> 0 | Some pl \<Rightarrow> unat (vqty pl ! v))"

definition agg_at :: "SideBook \<Rightarrow> int \<Rightarrow> u32" where
  "agg_at sb t = (case levels sb t of None \<Rightarrow> 0 | Some pl \<Rightarrow> agg pl)"

text \<open>
  What the index says rests at one side, tick and venue: the sum of the quantities of the
  indexed orders placed there.
\<close>

definition contrib :: "Meta \<Rightarrow> bool \<Rightarrow> int \<Rightarrow> nat \<Rightarrow> nat" where
  "contrib m s t v = (if m_sb m = s \<and> m_idx m = t \<and> m_vid m = v then unat (m_qty m) else 0)"

definition resting :: "(string \<rightharpoonup> Meta) \<Rightarrow> bool \<Rightarrow> int \<Rightarrow> nat \<Rightarrow> nat" where
  "resting om s t v = (\<Sum>oid\<in>dom om. contrib (the (om oid)) s t v)"

text \<open>
  The invariant of a book: each side book is sound and carries the tag of its side, the
  index is finite, every indexed order is on a venue of the table, and at every side,
  tick and venue the indexed orders sum to at most the quantity that rests there.  (The
  sum can be smaller: the source lets an identifier be added twice, and the quantity of
  the overwritten entry stays in the book.)
\<close>

definition book_inv :: "OrderBook \<Rightarrow> bool" where
  "book_inv b \<longleftrightarrow>
     is_bid (bid_sb b) \<and> \<not> is_bid (ask_sb b) \<and> side_ok (bid_sb b) \<and> side_ok (ask_sb b) \<and>
     finite (dom (omap b)) \<and>
     (\<forall>oid m. omap b oid = Some m \<longrightarrow> m_vid m < NUM_VENUES) \<and>
     (\<forall>s t v. v < NUM_VENUES \<longrightarrow> resting (omap b) s t v \<le> lvl_qty (side_of b s) t v)"

text \<open>
  An add is within bounds when its quantity is positive and the level it goes to stays
  below \<open>2 ^ 32\<close>.  The states \<open>reachable\<close> from the empty book are those produced
  by the four event handlers with every add (and the add of every replace) within bounds.
\<close>

definition add_ok :: "OrderBook \<Rightarrow> string \<Rightarrow> real \<Rightarrow> u32 \<Rightarrow> bool" where
  "add_ok b side_b price q \<longleftrightarrow>
     q \<noteq> 0 \<and> unat (agg_at (side_of b (side_b = ''BID'')) (p2i price)) + unat q < 2 ^ 32"

inductive reachable :: "OrderBook \<Rightarrow> bool" where
  r_init: "reachable OrderBook_init"
| r_add: "reachable b \<Longrightarrow> add_ok b side_b price q \<Longrightarrow>
           reachable (snd (on_add b oid venue_code side_b price q))"
| r_cancel: "reachable b \<Longrightarrow> reachable (snd (on_cancel b oid))"
| r_replace: "reachable b \<Longrightarrow> add_ok b side_b price q \<Longrightarrow>
           reachable (snd (on_replace b new_oid old_oid venue_code side_b price q))"
| r_execute: "reachable b \<Longrightarrow> reachable (snd (on_execute b oid exec_qty))"

text \<open>
  The same bound for the events of a batch, each checked in the state its predecessors
  leave.
\<close>

fun event_ok :: "OrderBook \<Rightarrow> event \<Rightarrow> bool" where
  "event_ok b (Add oid venue_code side_b price q) = add_ok b side_b price q"
| "event_ok b (Replace new_oid old_oid venue_code side_b price q) = add_ok b side_b price q"
| "event_ok b e = True"

fun apply_event :: "OrderBook \<Rightarrow> event \<Rightarrow> OrderBook" where
  "apply_event b (Add oid venue_code side_b price q) = snd (on_add b oid venue_code side_b price q)"
| "apply_event b (Cancel oid) = snd (on_cancel b oid)"
| "apply_event b (Replace new_oid old_oid venue_code side_b price q) =
     snd (on_replace b new_oid old_oid venue_code side_b price q)"
| "apply_event b (Execute oid exec_qty) = snd (on_execute b oid exec_qty)"
| "apply_event b (Other cmd) = b"

fun batch_ok :: "OrderBook \<Rightarrow> event list \<Rightarrow> bool" where
  "batch_ok b [] = True"
| "batch_ok b (e # es) = (event_ok b e \<and> batch_ok (apply_event b e) es)"

text \<open>
  The part of the invariant that no call can break: the tick set is finite and is the
  key set of the levels.  It holds in every state \<open>reached\<close> from the empty book by the
  four handlers with arguments of any kind (\<open>reached_keys_ok\<close> below).
\<close>

definition ticks_are_keys :: "SideBook \<Rightarrow> bool" where
  "ticks_are_keys sb \<longleftrightarrow> finite (ticks sb) \<and> ticks sb = dom (levels sb)"

definition keys_ok :: "OrderBook \<Rightarrow> bool" where
  "keys_ok b \<longleftrightarrow> ticks_are_keys (bid_sb b) \<and> ticks_are_keys (ask_sb b)"

inductive reached :: "OrderBook \<Rightarrow> bool" where
  c_init: "reached OrderBook_init"
| c_add: "reached b \<Longrightarrow> reached (snd (on_add b oid venue_code side_b price q))"
| c_cancel: "reached b \<Longrightarrow> reached (snd (on_cancel b oid))"
| c_replace: "reached b \<Longrightarrow> reached (snd (on_replace b new_oid old_oid venue_code side_b price q))"
| c_execute: "reached b \<Longrightarrow> reached (snd (on_execute b oid exec_qty))"

section \<open>Example books\<close>

text \<open>
  The books of the scenarios of the specification: after \<open>a\<close> bids 5 at 10.00 on venue
  C; after \<open>b\<close> bids 3 at 10.01 on I; after \<open>c\<close> bids 2 at 10.01 on B; after \<open>b\<close> is
  executed in full; after the execution of \<open>c\<close> has failed.
\<close>

definition book1 :: OrderBook where
  "book1 = \<lparr>bid_sb = \<lparr>is_bid = True, ticks = {1000},
                levels = [1000 \<mapsto> \<lparr>vqty = [5,0,0,0,0,0,0,0,0,0,0,0,0,0], agg = 5\<rparr>]\<rparr>,
       ask_sb = \<lparr>is_bid = False, ticks = {}, levels = Map.empty\<rparr>,
       omap = [''a'' \<mapsto> \<lparr>m_sb = True, m_idx = 1000, m_vid = 0, m_qty = 5\<rparr>]\<rparr>"

definition book2 :: OrderBook where
  "book2 = \<lparr>bid_sb = \<lparr>is_bid = True, ticks = {1000, 1001},
                levels = [1000 \<mapsto> \<lparr>vqty = [5,0,0,0,0,0,0,0,0,0,0,0,0,0], agg = 5\<rparr>,
                          1001 \<mapsto> \<lparr>vqty = [0,3,0,0,0,0,0,0,0,0,0,0,0,0], agg = 3\<rparr>]\<rparr>,
       ask_sb = \<lparr>is_bid = False, ticks = {}, levels = Map.empty\<rparr>,
       omap = [''a'' \<mapsto> \<lparr>m_sb = True, m_idx = 1000, m_vid = 0, m_qty = 5\<rparr>,
               ''b'' \<mapsto> \<lparr>m_sb = True, m_idx = 1001, m_vid = 1, m_qty = 3\<rparr>]\<rparr>"

definition book3 :: OrderBook where
  "book3 = \<lparr>bid_sb = \<lparr>is_bid = True, ticks = {1000, 1001},
                levels = [1000 \<mapsto> \<lparr>vqty = [5,0,0,0,0,0,0,0,0,0,0,0,0,0], agg = 5\<rparr>,
                          1001 \<mapsto> \<lparr>vqty = [0,3,2,0,0,0,0,0,0,0,0,0,0,0], agg = 5\<rparr>]\<rparr>,
       ask_sb = \<lparr>is_bid = False, ticks = {}, levels = Map.empty\<rparr>,
       omap = [''a'' \<mapsto> \<lparr>m_sb = True, m_idx = 1000, m_vid = 0, m_qty = 5\<rparr>,
               ''b'' \<mapsto> \<lparr>m_sb = True, m_idx = 1001, m_vid = 1, m_qty = 3\<rparr>,
               ''c'' \<mapsto> \<lparr>m_sb = True, m_idx = 1001, m_vid = 2, m_qty = 2\<rparr>]\<rparr>"

definition book4 :: OrderBook where
  "book4 = \<lparr>bid_sb = \<lparr>is_bid = True, ticks = {1000, 1001},
                levels = [1000 \<mapsto> \<lparr>vqty = [5,0,0,0,0,0,0,0,0,0,0,0,0,0], agg = 5\<rparr>,
                          1001 \<mapsto> \<lparr>vqty = [0,0,2,0,0,0,0,0,0,0,0,0,0,0], agg = 2\<rparr>]\<rparr>,
       ask_sb = \<lparr>is_bid = False, ticks = {}, levels = Map.empty\<rparr>,
       omap = [''a'' \<mapsto> \<lparr>m_sb = True, m_idx = 1000, m_vid = 0, m_qty = 5\<rparr>,
               ''c'' \<mapsto> \<lparr>m_sb = True, m_idx = 1001, m_vid = 2, m_qty = 2\<rparr>]\<rparr>"

definition book5 :: OrderBook where
  "book5 = \<lparr>bid_sb = \<lparr>is_bid = True, ticks = {1000},
                levels = [1000 \<mapsto> \<lparr>vqty = [5,0,0,0,0,0,0,0,0,0,0,0,0,0], agg = 5\<rparr>]\<rparr>,
       ask_sb = \<lparr>is_bid = False, ticks = {}, levels = Map.empty\<rparr>,
       omap = [''a'' \<mapsto> \<lparr>m_sb = True, m_idx = 1000, m_vid = 0, m_qty = 5\<rparr>,
               ''c'' \<mapsto> \<lparr>m_sb = True, m_idx = 1001, m_vid = 2, m_qty = 0\<rparr>]\<rparr>"

text \<open>
  The ask books of a replace (\<open>x\<close> asks 4 at 20.00 on A and is replaced by \<open>y\<close> at
  19.50), the book left behind when the only order of a book is executed in full, and the
  book after four bids of \<open>2 ^ 30\<close> at one price on four venues.
\<close>

definition book_x :: OrderBook where
  "book_x = \<lparr>bid_sb = \<lparr>is_bid = True, ticks = {}, levels = Map.empty\<rparr>,
       ask_sb = \<lparr>is_bid = False, ticks = {2000},
                levels = [2000 \<mapsto> \<lparr>vqty = [0,0,0,0,4,0,0,0,0,0,0,0,0,0], agg = 4\<rparr>]\<rparr>,
       omap = [''x'' \<mapsto> \<lparr>m_sb = False, m_idx = 2000, m_vid = 4, m_qty = 4\<rparr>]\<rparr>"

definition book_half :: OrderBook where
  "book_half = \<lparr>bid_sb = \<lparr>is_bid = True, ticks = {}, levels = Map.empty\<rparr>,
       ask_sb = \<lparr>is_bid = False, ticks = {1950},
                levels = [1950 \<mapsto> \<lparr>vqty = [0,0,0,0,4,0,0,0,0,0,0,0,0,0], agg = 4\<rparr>]\<rparr>,
       omap = [''y'' \<mapsto> \<lparr>m_sb = False, m_idx = 1950, m_vid = 4, m_qty = 4\<rparr>]\<rparr>"

definition book_stale :: OrderBook where
  "book_stale = \<lparr>bid_sb = \<lparr>is_bid = True, ticks = {}, levels = Map.empty\<rparr>,
       ask_sb = \<lparr>is_bid = False, ticks = {}, levels = Map.empty\<rparr>,
       omap = [''a'' \<mapsto> \<lparr>m_sb = True, m_idx = 1000, m_vid = 0, m_qty = 0\<rparr>]\<rparr>"

definition book_wrapped :: OrderBook where
  "book_wrapped = \<lparr>bid_sb = \<lparr>is_bid = True, ticks = {1000},
                levels = [1000 \<mapsto> \<lparr>vqty = [1073741824,1073741824,1073741824,1073741824,
                                                  0,0,0,0,0,0,0,0,0,0], agg = 0\<rparr>]\<rparr>,
       ask_sb = \<lparr>is_bid = False, ticks = {}, levels = Map.empty\<rparr>,
       omap = [''a'' \<mapsto> \<lparr>m_sb = True, m_idx = 1000, m_vid = 0, m_qty = 1073741824\<rparr>,
               ''b'' \<mapsto> \<lparr>m_sb = True, m_idx = 1000, m_vid = 1, m_qty = 1073741824\<rparr>,
               ''c'' \<mapsto> \<lparr>m_sb = True, m_idx = 1000, m_vid = 2, m_qty = 1073741824\<rparr>,
               ''d'' \<mapsto> \<lparr>m_sb = True, m_idx = 1000, m_vid = 3, m_qty = 1073741824\<rparr>]\<rparr>"

text \<open>
  The wrapped book after \<open>z\<close> bids 5 at its level and is cancelled (also the wrapped
  book after an execution of quantity 0 of \<open>a\<close>): the level is gone, its four orders
  are still indexed.  Then the same book after \<open>k\<close> asks 1 at 20.00 on A.
\<close>

definition book_emptied :: OrderBook where
  "book_emptied = \<lparr>bid_sb = \<lparr>is_bid = True, ticks = {}, levels = Map.empty\<rparr>,
       ask_sb = \<lparr>is_bid = False, ticks = {}, levels = Map.empty\<rparr>,
       omap = [''a'' \<mapsto> \<lparr>m_sb = True, m_idx = 1000, m_vid = 0, m_qty = 1073741824\<rparr>,
               ''b'' \<mapsto> \<lparr>m_sb = True, m_idx = 1000, m_vid = 1, m_qty = 1073741824\<rparr>,
               ''c'' \<mapsto> \<lparr>m_sb = True, m_idx = 1000, m_vid = 2, m_qty = 1073741824\<rparr>,
               ''d'' \<mapsto> \<lparr>m_sb = True, m_idx = 1000, m_vid = 3, m_qty = 1073741824\<rparr>]\<rparr>"

definition book_k :: OrderBook where
  "book_k = \<lparr>bid_sb = \<lparr>is_bid = True, ticks = {}, levels = Map.empty\<rparr>,
       ask_sb = \<lparr>is_bid = False, ticks = {2000},
                levels = [2000 \<mapsto> \<lparr>vqty = [0,0,0,0,1,0,0,0,0,0,0,0,0,0], agg = 1\<rparr>]\<rparr>,
       omap = [''a'' \<mapsto> \<lparr>m_sb = True, m_idx = 1000, m_vid = 0, m_qty = 1073741824\<rparr>,
               ''b'' \<mapsto> \<lparr>m_sb = True, m_idx = 1000, m_vid = 1, m_qty = 1073741824\<rparr>,
               ''c'' \<mapsto> \<lparr>m_sb = True, m_idx = 1000, m_vid = 2, m_qty = 1073741824\<rparr>,
               ''d'' \<mapsto> \<lparr>m_sb = True, m_idx = 1000, m_vid = 3, m_qty = 1073741824\<rparr>,
               ''k'' \<mapsto> \<lparr>m_sb = False, m_idx = 2000, m_vid = 4, m_qty = 1\<rparr>]\<rparr>"

section \<open>Words, lists and levels\<close>

lemma sum_list_unat_update:
  "v < length xs \<Longrightarrow>
     sum_list (map unat (xs[v := x])) + unat (xs ! v) = sum_list (map unat xs) + unat (x::u32)"
  by (induction xs arbitrary: v) (auto split: nat.splits)

lemma elem_le_sum_list_unat:
  "v < length xs \<Longrightarrow> unat ((xs::u32 list) ! v) \<le> sum_list (map unat xs)"
  by (induction xs arbitrary: v) (auto simp: nth_Cons split: nat.splits intro: trans_le_add2)

lemma sum_list_unat_zero:
  "sum_list (map unat (xs::u32 list)) = 0 \<Longrightarrow> v < length xs \<Longrightarrow> xs ! v = 0"
  using elem_le_sum_list_unat[of v xs] by (simp add: unat_eq_0)

lemma unat_plus_no_wrap: "unat (a::u32) + unat q < 2 ^ 32 \<Longrightarrow> unat (a + q) = unat a + unat q"
  by (simp add: unat_word_ariths)

lemma unat_minus_no_wrap: "unat q \<le> unat (a::u32) \<Longrightarrow> unat (a - q) = unat a - unat q"
  by (simp add: unat_sub word_le_nat_alt)

lemma adjust_plus_ok:
  assumes "level_ok pl" "v < NUM_VENUES" "unat (agg pl) + unat q < 2 ^ 32"
  shows "level_ok (adjust pl v q)"
    and "unat (vqty (adjust pl v q) ! v') = unat (vqty pl ! v') + (if v' = v then unat q else 0)"
proof -
  have len: "v < length (vqty pl)" and s: "unat (agg pl) = sum_list (map unat (vqty pl))"
    and nz: "agg pl \<noteq> 0"
    using assms by (auto simp: level_ok_def)
  have le: "unat (vqty pl ! v) \<le> unat (agg pl)"
    using elem_le_sum_list_unat[OF len] s by simp
  have a: "unat (agg pl + q) = unat (agg pl) + unat q"
    using assms(3) by (rule unat_plus_no_wrap)
  have x: "unat (vqty pl ! v + q) = unat (vqty pl ! v) + unat q"
    using assms(3) le by (intro unat_plus_no_wrap) simp
  have "agg pl + q \<noteq> 0"
    using a nz by (metis add_is_0 unat_eq_0)
  moreover have "unat (agg pl + q) = sum_list (map unat ((vqty pl)[v := vqty pl ! v + q]))"
    using sum_list_unat_update[OF len, of "vqty pl ! v + q"] a x s by simp
  ultimately show "level_ok (adjust pl v q)"
    using assms(1) by (simp add: level_ok_def adjust_def)
  show "unat (vqty (adjust pl v q) ! v') = unat (vqty pl ! v') + (if v' = v then unat q else 0)"
    using len x by (simp add: adjust_def nth_list_update)
qed

lemma adjust_init_ok:
  assumes "v < NUM_VENUES" "q \<noteq> 0"
  shows "level_ok (adjust PriceLevel_init v q)"
    and "v' < NUM_VENUES \<Longrightarrow>
         unat (vqty (adjust PriceLevel_init v q) ! v') = (if v' = v then unat q else 0)"
proof -
  have "sum_list (map unat ((replicate NUM_VENUES (0::u32))[v := q])) = unat q"
    using sum_list_unat_update[of v "replicate NUM_VENUES (0::u32)" q] assms(1)
    by (simp add: sum_list_replicate flip: map_replicate) 
  then show "level_ok (adjust PriceLevel_init v q)"
    using assms by (simp add: level_ok_def adjust_def PriceLevel_init_def)
  show "v' < NUM_VENUES \<Longrightarrow>
         unat (vqty (adjust PriceLevel_init v q) ! v') = (if v' = v then unat q else 0)"
    using assms(1) by (auto simp: adjust_def PriceLevel_init_def nth_list_update)
qed

lemma adjust_minus_ok:
  assumes "level_ok pl" "v < NUM_VENUES" "unat q \<le> unat (vqty pl ! v)"
  shows "agg (adjust pl v (- q)) \<noteq> 0 \<Longrightarrow> level_ok (adjust pl v (- q))"
    and "unat (vqty (adjust pl v (- q)) ! v') = unat (vqty pl ! v') - (if v' = v then unat q else 0)"
    and "agg (adjust pl v (- q)) = 0 \<Longrightarrow> v' < NUM_VENUES \<Longrightarrow>
           unat (vqty pl ! v') = (if v' = v then unat q else 0)"
proof -
  have len: "v < length (vqty pl)" and s: "unat (agg pl) = sum_list (map unat (vqty pl))"
    and l14: "length (vqty pl) = NUM_VENUES"
    using assms by (auto simp: level_ok_def)
  have le: "unat (vqty pl ! v) \<le> unat (agg pl)"
    using elem_le_sum_list_unat[OF len] s by simp
  have a: "unat (agg pl - q) = unat (agg pl) - unat q"
    using assms(3) le by (intro unat_minus_no_wrap) simp
  have x: "unat (vqty pl ! v - q) = unat (vqty pl ! v) - unat q"
    using assms(3) by (rule unat_minus_no_wrap)
  have sm: "unat (agg pl - q) = sum_list (map unat ((vqty pl)[v := vqty pl ! v - q]))"
    using sum_list_unat_update[OF len, of "vqty pl ! v - q"] a x s assms(3) le by simp
  show "agg (adjust pl v (- q)) \<noteq> 0 \<Longrightarrow> level_ok (adjust pl v (- q))"
    using sm l14 by (simp add: level_ok_def adjust_def)
  show "unat (vqty (adjust pl v (- q)) ! v') = unat (vqty pl ! v') - (if v' = v then unat q else 0)"
    using len x by (simp add: adjust_def nth_list_update)
  show "unat (vqty pl ! v') = (if v' = v then unat q else 0)"
    if z: "agg (adjust pl v (- q)) = 0" and v': "v' < NUM_VENUES"
  proof -
    have "sum_list (map unat ((vqty pl)[v := vqty pl ! v - q])) = 0"
      using z sm by (simp add: adjust_def)
    then have "(vqty pl)[v := vqty pl ! v - q] ! v' = 0"
      using v' l14 by (intro sum_list_unat_zero) simp_all
    then show ?thesis
      using len x assms(3) by (auto simp: nth_list_update unat_eq_0 split: if_splits)
  qed
qed

lemma adjust_undo: "adjust (adjust pl v q) v (- q) = (pl::PriceLevel)"
  by (cases pl; cases "v < length (vqty pl)") (simp_all add: adjust_def list_update_beyond)

lemma adjust_zero: "adjust pl v 0 = (pl::PriceLevel)"
  by (cases pl) (simp add: adjust_def)

section \<open>Venue table\<close>

lemma index_of_bound: "index_of c xs = Some i \<Longrightarrow> i < length xs \<and> xs ! i = c"
  by (induction xs arbitrary: i) (auto split: if_splits)

lemma VENUE_MAP_bound: "VENUE_MAP c = Some v \<Longrightarrow> v < NUM_VENUES \<and> VENUE_CODE ! v = c"
  using index_of_bound[of c VENUE_CODE v] by (simp add: VENUE_MAP_def VENUE_CODE_def NUM_VENUES_def)

lemma distinct_VENUE_CODE: "distinct VENUE_CODE \<and> length VENUE_CODE = NUM_VENUES"
  by (simp add: VENUE_CODE_def NUM_VENUES_def)

section \<open>Side books\<close>

lemma best_idx_in_ticks:
  "finite (ticks sb) \<Longrightarrow> ticks sb \<noteq> {} \<Longrightarrow> best_idx sb \<in> ticks sb"
  by (simp add: best_idx_def)

lemma SideBook_add_ok:
  assumes "side_ok sb" "v < NUM_VENUES" "q \<noteq> 0" "unat (agg_at sb t) + unat q < 2 ^ 32"
  shows "side_ok (snd (SideBook_add sb t v q))"
    and "v' < NUM_VENUES \<Longrightarrow> lvl_qty (snd (SideBook_add sb t v q)) t' v' =
           lvl_qty sb t' v' + (if t' = t \<and> v' = v then unat q else 0)"
    and "is_bid (snd (SideBook_add sb t v q)) = is_bid sb"
proof -
  show "is_bid (snd (SideBook_add sb t v q)) = is_bid sb"
    by (simp add: SideBook_add_def Let_def)
  show "side_ok (snd (SideBook_add sb t v q))"
  proof (cases "levels sb t")
    case None
    then have "t \<notin> ticks sb" using assms(1) by (auto simp: side_ok_def)
    then show ?thesis
      using assms None adjust_init_ok(1)[OF assms(2,3)]
      by (auto simp: SideBook_add_def Let_def side_ok_def PriceLevel_init_def)
  next
    case (Some pl)
    then have "level_ok pl" "t \<in> ticks sb" using assms(1) by (auto simp: side_ok_def)
    moreover have "level_ok (adjust pl v q)"
      using assms(4) Some \<open>level_ok pl\<close> assms(2) by (intro adjust_plus_ok(1)) (simp_all add: agg_at_def)
    ultimately show ?thesis
      using assms Some
      by (auto simp: SideBook_add_def Let_def side_ok_def level_ok_def)
  qed
  show "lvl_qty (snd (SideBook_add sb t v q)) t' v' =
           lvl_qty sb t' v' + (if t' = t \<and> v' = v then unat q else 0)" if v': "v' < NUM_VENUES"
  proof (cases "levels sb t")
    case None
    then show ?thesis
      using adjust_init_ok(2)[OF assms(2,3) v']
      by (auto simp: SideBook_add_def Let_def lvl_qty_def)
  next
    case (Some pl)
    then have "level_ok pl" using assms(1) by (auto simp: side_ok_def)
    then have "unat (vqty (adjust pl v q) ! v') = unat (vqty pl ! v') + (if v' = v then unat q else 0)"
      using assms(4) Some assms(2) by (intro adjust_plus_ok(2)) (simp_all add: agg_at_def)
    then show ?thesis
      using Some by (auto simp: SideBook_add_def Let_def lvl_qty_def)
  qed
qed

lemma fst_SideBook_add:
  "fst (SideBook_add sb t v q) = INT_MIN \<or>
   (fst (SideBook_add sb t v q) = best_idx sb \<and> ticks sb \<noteq> {})"
  by (cases "ticks sb = {}") (simp_all add: SideBook_add_def Let_def best_idx_def)

lemma levels_after_add:
  "levels sb t' \<noteq> None \<or> t' = t \<Longrightarrow> levels (snd (SideBook_add sb t v q)) t' \<noteq> None"
  by (auto simp: SideBook_add_def Let_def)

lemma SideBook_remove_ok:
  assumes "side_ok sb" "v < NUM_VENUES" "unat q \<le> lvl_qty sb t v" "levels sb t \<noteq> None"
  shows "side_ok (snd (SideBook_remove sb t v q))"
    and "v' < NUM_VENUES \<Longrightarrow> lvl_qty (snd (SideBook_remove sb t v q)) t' v' =
           lvl_qty sb t' v' - (if t' = t \<and> v' = v then unat q else 0)"
    and "is_bid (snd (SideBook_remove sb t v q)) = is_bid sb"
    and "fst (SideBook_remove sb t v q) = Inr ()"
proof -
  obtain pl where pl: "levels sb t = Some pl" using assms(4) by auto
  then have ok: "level_ok pl" using assms(1) by (auto simp: side_ok_def)
  have le: "unat q \<le> unat (vqty pl ! v)" using assms(3) pl by (simp add: lvl_qty_def)
  note A = adjust_minus_ok[OF ok assms(2) le]
  show "is_bid (snd (SideBook_remove sb t v q)) = is_bid sb"
    using pl by (simp add: SideBook_remove_def Let_def)
  show "fst (SideBook_remove sb t v q) = Inr ()"
    using pl by (simp add: SideBook_remove_def Let_def)
  show "side_ok (snd (SideBook_remove sb t v q))"
    using assms(1) pl A(1)
    by (auto simp: SideBook_remove_def Let_def side_ok_def split: if_splits)
  show "lvl_qty (snd (SideBook_remove sb t v q)) t' v' =
           lvl_qty sb t' v' - (if t' = t \<and> v' = v then unat q else 0)" if v': "v' < NUM_VENUES"
    using pl A(2)[of v'] A(3)[OF _ v']
    by (auto simp: SideBook_remove_def Let_def lvl_qty_def)
qed

lemma SideBook_remove_absent:
  "levels sb t = None \<Longrightarrow> SideBook_remove sb t v q = (Inl out_of_range, sb)"
  by (simp add: SideBook_remove_def)

lemma SideBook_remove_returns:
  "levels sb t \<noteq> None \<Longrightarrow> fst (SideBook_remove sb t v q) = Inr ()"
  by (auto simp: SideBook_remove_def Let_def)

lemma remove_after_add:
  assumes "side_ok sb"
  shows "SideBook_remove (snd (SideBook_add sb t v q)) t v q = (Inr (), sb)"
proof (cases "levels sb t")
  case None
  then have "t \<notin> ticks sb" using assms by (auto simp: side_ok_def)
  moreover have "(levels sb)(t := None) = levels sb" using None by (simp add: fun_upd_idem)
  ultimately show ?thesis
    using None
    by (simp add: SideBook_add_def SideBook_remove_def Let_def adjust_def PriceLevel_init_def)
next
  case (Some pl)
  then have "agg pl \<noteq> 0" using assms by (auto simp: side_ok_def level_ok_def)
  then show ?thesis
    using Some
    by (simp add: SideBook_add_def SideBook_remove_def Let_def adjust_undo fun_upd_idem)
qed

lemma remove_after_add_local:
  assumes "ticks_are_keys sb" and "\<forall>pl. levels sb t = Some pl \<longrightarrow> agg pl \<noteq> 0"
  shows "SideBook_remove (snd (SideBook_add sb t v q)) t v q = (Inr (), sb)"
proof (cases "levels sb t")
  case None
  then have "t \<notin> ticks sb" using assms(1) by (auto simp: ticks_are_keys_def)
  moreover have "(levels sb)(t := None) = levels sb" using None by (simp add: fun_upd_idem)
  ultimately show ?thesis
    using None
    by (simp add: SideBook_add_def SideBook_remove_def Let_def adjust_def PriceLevel_init_def)
next
  case (Some pl)
  then have "agg pl \<noteq> 0" using assms(2) by simp
  then show ?thesis
    using Some
    by (simp add: SideBook_add_def SideBook_remove_def Let_def adjust_undo fun_upd_idem)
qed

lemma ticks_are_keys_add:
  "ticks_are_keys sb \<Longrightarrow> ticks_are_keys (snd (SideBook_add sb t v q))"
  by (auto simp: ticks_are_keys_def SideBook_add_def Let_def PriceLevel_init_def split: option.splits)

lemma ticks_are_keys_remove:
  "ticks_are_keys sb \<Longrightarrow> ticks_are_keys (snd (SideBook_remove sb t v q))"
  by (auto simp: ticks_are_keys_def SideBook_remove_def Let_def split: option.splits)

lemma side_ok_ticks_are_keys: "side_ok sb \<Longrightarrow> ticks_are_keys sb"
  by (auto simp: side_ok_def ticks_are_keys_def)

section \<open>The order index\<close>

lemma resting_erase:
  assumes "finite (dom om)" "om oid = Some m"
  shows "resting om s t v = contrib m s t v + resting (om(oid := None)) s t v"
proof -
  have d: "dom om = insert oid (dom om - {oid})" using assms(2) by auto
  have "resting om s t v = (\<Sum>x\<in>insert oid (dom om - {oid}). contrib (the (om x)) s t v)"
    unfolding resting_def using d by simp
  also have "\<dots> = contrib m s t v + (\<Sum>x\<in>dom om - {oid}. contrib (the (om x)) s t v)"
    using assms by (subst sum.insert) auto
  also have "(\<Sum>x\<in>dom om - {oid}. contrib (the (om x)) s t v) = resting (om(oid := None)) s t v"
    unfolding resting_def by (rule sum.cong) auto
  finally show ?thesis .
qed

lemma resting_erase_le:
  "finite (dom om) \<Longrightarrow> resting (om(oid := None)) s t v \<le> resting om s t v"
  by (cases "om oid") (auto simp: resting_erase[of om oid] fun_upd_idem)

lemma resting_update:
  assumes "finite (dom om)"
  shows "resting (om(oid \<mapsto> m)) s t v = contrib m s t v + resting (om(oid := None)) s t v"
  using resting_erase[of "om(oid \<mapsto> m)" oid m s t v] assms by simp

lemma contrib_decrease:
  "unat k \<le> unat (m_qty m) \<Longrightarrow>
     contrib (m\<lparr>m_qty := m_qty m - k\<rparr>) s t v =
       contrib m s t v - (if m_sb m = s \<and> m_idx m = t \<and> m_vid m = v then unat k else 0)"
  by (auto simp: contrib_def unat_minus_no_wrap)

section \<open>The invariant is kept by every handler\<close>

lemma book_inv_sides: "book_inv b \<Longrightarrow> side_ok (side_of b s) \<and> is_bid (side_of b s) = s"
  by (simp add: book_inv_def side_of_def)

lemma side_of_set_side:
  "side_of (set_side b s sb) s' = (if s' = s then sb else side_of b s')"
  by (auto simp: side_of_def set_side_def)

lemma omap_set_side: "omap (set_side b s sb) = omap b"
  by (simp add: set_side_def)

lemma side_of_omap_update: "side_of (b\<lparr>omap := om\<rparr>) s = side_of b s"
  by (simp add: side_of_def)

lemma set_side_same: "set_side b s (side_of b s) = b"
  by (simp add: set_side_def side_of_def)

lemma set_side_twice: "set_side (set_side b s sb) s sb' = set_side b s sb'"
  by (simp add: set_side_def)

lemma set_side_omap_update:
  "set_side (b\<lparr>omap := om\<rparr>) s sb = (set_side b s sb)\<lparr>omap := om\<rparr>"
  by (simp add: set_side_def)

lemma book_inv_sideI:
  assumes "\<And>s. side_ok (side_of b s)" "\<And>s. is_bid (side_of b s) = s" "finite (dom (omap b))"
    "\<And>oid m. omap b oid = Some m \<Longrightarrow> m_vid m < NUM_VENUES"
    "\<And>s t v. v < NUM_VENUES \<Longrightarrow> resting (omap b) s t v \<le> lvl_qty (side_of b s) t v"
  shows "book_inv b"
  using assms(1)[of True] assms(1)[of False] assms(2)[of True] assms(2)[of False] assms(3-5)
  by (simp add: book_inv_def side_of_def)

lemma snd_on_add:
  "VENUE_MAP venue_code = Some v \<Longrightarrow>
   snd (on_add b oid venue_code side_b price q) =
     (set_side b (side_b = ''BID'') (snd (SideBook_add (side_of b (side_b = ''BID'')) (p2i price) v q)))
       \<lparr>omap := (omap b)(oid \<mapsto> \<lparr>m_sb = (side_b = ''BID''), m_idx = p2i price, m_vid = v, m_qty = q\<rparr>)\<rparr>"
  by (simp add: on_add_def Let_def split: prod.splits sum.splits)

lemma on_add_inv:
  assumes "book_inv b" "add_ok b side_b price q"
  shows "book_inv (snd (on_add b oid venue_code side_b price q))"
proof (cases "VENUE_MAP venue_code")
  case None
  then show ?thesis using assms(1) by (simp add: on_add_def)
next
  case (Some v)
  define s where "s = (side_b = ''BID'')"
  define t where "t = p2i price"
  define m where "m = \<lparr>m_sb = s, m_idx = t, m_vid = v, m_qty = q\<rparr>"
  define sb where "sb = snd (SideBook_add (side_of b s) t v q)"
  have v: "v < NUM_VENUES" using VENUE_MAP_bound[OF Some] by simp
  have q: "q \<noteq> 0" and nov: "unat (agg_at (side_of b s) t) + unat q < 2 ^ 32"
    using assms(2) by (simp_all add: add_ok_def s_def t_def)
  have so: "side_ok (side_of b s)" and ib: "is_bid (side_of b s) = s"
    using book_inv_sides[OF assms(1)] by simp_all
  note A = SideBook_add_ok[OF so v q nov, folded sb_def]
  have fin: "finite (dom (omap b))" using assms(1) by (simp add: book_inv_def)
  have b': "snd (on_add b oid venue_code side_b price q) = (set_side b s sb)\<lparr>omap := (omap b)(oid \<mapsto> m)\<rparr>"
    using snd_on_add[OF Some] by (simp add: s_def t_def m_def sb_def)
  show ?thesis unfolding b'
  proof (rule book_inv_sideI)
    fix s' show "side_ok (side_of ((set_side b s sb)\<lparr>omap := (omap b)(oid \<mapsto> m)\<rparr>) s')"
      using A(1) book_inv_sides[OF assms(1), of s']
      by (auto simp: side_of_omap_update side_of_set_side)
  next
    fix s' show "is_bid (side_of ((set_side b s sb)\<lparr>omap := (omap b)(oid \<mapsto> m)\<rparr>) s') = s'"
      using A(3) ib book_inv_sides[OF assms(1), of s']
      by (auto simp: side_of_omap_update side_of_set_side)
  next
    show "finite (dom (omap ((set_side b s sb)\<lparr>omap := (omap b)(oid \<mapsto> m)\<rparr>)))"
      using fin by simp
  next
    fix oid' m' assume "omap ((set_side b s sb)\<lparr>omap := (omap b)(oid \<mapsto> m)\<rparr>) oid' = Some m'"
    then show "m_vid m' < NUM_VENUES"
      using assms(1) v by (auto simp: book_inv_def m_def split: if_splits)
  next
    fix s' t' v' assume v': "v' < NUM_VENUES"
    have "resting ((omap b)(oid \<mapsto> m)) s' t' v' \<le> contrib m s' t' v' + resting (omap b) s' t' v'"
      using resting_update[OF fin, of oid m s' t' v'] resting_erase_le[OF fin, of oid s' t' v'] by simp
    also have "resting (omap b) s' t' v' \<le> lvl_qty (side_of b s') t' v'"
      using assms(1) v' by (simp add: book_inv_def)
    also have "contrib m s' t' v' + lvl_qty (side_of b s') t' v' =
        lvl_qty (side_of (set_side b s sb) s') t' v'"
      using A(2)[OF v', of t'] by (auto simp: side_of_set_side contrib_def m_def)
    finally show "resting (omap ((set_side b s sb)\<lparr>omap := (omap b)(oid \<mapsto> m)\<rparr>)) s' t' v'
        \<le> lvl_qty (side_of ((set_side b s sb)\<lparr>omap := (omap b)(oid \<mapsto> m)\<rparr>) s') t' v'"
      by (simp add: side_of_omap_update)
  qed
qed

lemma remove_step:
  assumes so: "\<And>s. side_ok (side_of b s)" and fl: "\<And>s. is_bid (side_of b s) = s"
    and v: "m_vid m < NUM_VENUES"
    and R: "\<And>s t v. v < NUM_VENUES \<Longrightarrow> r s t v + contrib m s t v \<le> lvl_qty (side_of b s) t v"
    and k: "unat k \<le> unat (m_qty m)"
  defines "b' \<equiv> set_side b (m_sb m) (snd (SideBook_remove (side_of b (m_sb m)) (m_idx m) (m_vid m) k))"
  shows "side_ok (side_of b' s) \<and> is_bid (side_of b' s) = s \<and>
         (\<forall>v'<NUM_VENUES. r s t v' + contrib (m\<lparr>m_qty := m_qty m - k\<rparr>) s t v' \<le> lvl_qty (side_of b' s) t v')"
proof (cases "levels (side_of b (m_sb m)) (m_idx m)")
  case None
  then have e: "b' = b"
    by (simp add: b'_def SideBook_remove_absent set_side_same)
  have "r s t v' + contrib (m\<lparr>m_qty := m_qty m - k\<rparr>) s t v' \<le> lvl_qty (side_of b s) t v'"
    if "v' < NUM_VENUES" for v'
    using R[OF that, of s t] contrib_decrease[OF k, of s t v'] by simp
  then show ?thesis using so[of s] fl[of s] e by simp
next
  case (Some pl)
  have "contrib m (m_sb m) (m_idx m) (m_vid m) \<le> lvl_qty (side_of b (m_sb m)) (m_idx m) (m_vid m)"
    using R[OF v, of "m_sb m" "m_idx m"] by simp
  then have le: "unat k \<le> lvl_qty (side_of b (m_sb m)) (m_idx m) (m_vid m)"
    using k by (simp add: contrib_def)
  have ne: "levels (side_of b (m_sb m)) (m_idx m) \<noteq> None" using Some by simp
  note A = SideBook_remove_ok[OF so v le ne]
  have 1: "side_ok (side_of b' s)"
    using A(1) so[of s] by (auto simp: side_of_set_side b'_def)
  have 2: "is_bid (side_of b' s) = s"
    using A(3) fl[of s] fl[of "m_sb m"] by (auto simp: side_of_set_side b'_def)
  have 3: "r s t v' + contrib (m\<lparr>m_qty := m_qty m - k\<rparr>) s t v' \<le> lvl_qty (side_of b' s) t v'"
    if "v' < NUM_VENUES" for v'
  proof -
    have "(if m_sb m = s \<and> m_idx m = t \<and> m_vid m = v' then unat k else 0) \<le> contrib m s t v'"
      using k by (simp add: contrib_def)
    then show ?thesis
      using R[OF that, of s t] A(2)[OF that, of t] contrib_decrease[OF k, of s t v']
      by (auto simp: side_of_set_side b'_def)
  qed
  show ?thesis using 1 2 3 by simp
qed

lemma book_inv_R:
  assumes "book_inv b" "omap b oid = Some m" "v < NUM_VENUES"
  shows "resting ((omap b)(oid := None)) s t v + contrib m s t v \<le> lvl_qty (side_of b s) t v"
proof -
  have "finite (dom (omap b))" using assms(1) by (simp add: book_inv_def)
  from resting_erase[OF this assms(2), of s t v]
  have "resting ((omap b)(oid := None)) s t v + contrib m s t v = resting (omap b) s t v" by simp
  moreover have "resting (omap b) s t v \<le> lvl_qty (side_of b s) t v"
    using assms(1,3) by (simp add: book_inv_def)
  ultimately show ?thesis by simp
qed

lemma on_cancel_inv:
  assumes "book_inv b"
  shows "book_inv (snd (on_cancel b oid))"
proof (cases "omap b oid")
  case None
  then show ?thesis using assms by (simp add: on_cancel_def)
next
  case (Some m)
  define b' where "b' = b\<lparr>omap := (omap b)(oid := None)\<rparr>"
  define sb where "sb = snd (SideBook_remove (side_of b (m_sb m)) (m_idx m) (m_vid m) (m_qty m))"
  have e: "snd (on_cancel b oid) = (set_side b (m_sb m) sb)\<lparr>omap := (omap b)(oid := None)\<rparr>"
    using Some by (simp add: on_cancel_def Let_def side_of_omap_update sb_def set_side_def split: prod.splits)
  have v: "m_vid m < NUM_VENUES" using assms Some by (auto simp: book_inv_def)
  have fin: "finite (dom (omap b))" using assms by (simp add: book_inv_def)
  have so: "\<And>s. side_ok (side_of b s)" and fl: "\<And>s. is_bid (side_of b s) = s"
    using book_inv_sides[OF assms] by simp_all
  have R: "\<And>s t v. v < NUM_VENUES \<Longrightarrow>
      resting ((omap b)(oid := None)) s t v + contrib m s t v \<le> lvl_qty (side_of b s) t v"
    using book_inv_R[OF assms Some] by simp
  have S: "side_ok (side_of (set_side b (m_sb m) sb) s) \<and> is_bid (side_of (set_side b (m_sb m) sb) s) = s \<and>
         (\<forall>v'<NUM_VENUES. resting ((omap b)(oid := None)) s t v' + contrib (m\<lparr>m_qty := m_qty m - m_qty m\<rparr>) s t v'
             \<le> lvl_qty (side_of (set_side b (m_sb m) sb) s) t v')" for s t
    unfolding sb_def by (rule remove_step[OF so fl v R order_refl])
  show ?thesis unfolding e
  proof (rule book_inv_sideI)
    fix s show "side_ok (side_of ((set_side b (m_sb m) sb)\<lparr>omap := (omap b)(oid := None)\<rparr>) s)"
      using S by (simp add: side_of_omap_update)
  next
    fix s show "is_bid (side_of ((set_side b (m_sb m) sb)\<lparr>omap := (omap b)(oid := None)\<rparr>) s) = s"
      using S by (simp add: side_of_omap_update)
  next
    show "finite (dom (omap ((set_side b (m_sb m) sb)\<lparr>omap := (omap b)(oid := None)\<rparr>)))"
      using fin by simp
  next
    fix oid' m' assume "omap ((set_side b (m_sb m) sb)\<lparr>omap := (omap b)(oid := None)\<rparr>) oid' = Some m'"
    then show "m_vid m' < NUM_VENUES"
      using assms by (auto simp: book_inv_def split: if_splits)
  next
    fix s t v' assume v': "v' < NUM_VENUES"
    show "resting (omap ((set_side b (m_sb m) sb)\<lparr>omap := (omap b)(oid := None)\<rparr>)) s t v'
        \<le> lvl_qty (side_of ((set_side b (m_sb m) sb)\<lparr>omap := (omap b)(oid := None)\<rparr>) s) t v'"
    proof -
      have "resting ((omap b)(oid := None)) s t v' + contrib (m\<lparr>m_qty := m_qty m - m_qty m\<rparr>) s t v'
             \<le> lvl_qty (side_of (set_side b (m_sb m) sb) s) t v'"
        using S[of s t] v' by blast
      then show ?thesis by (simp add: side_of_omap_update)
    qed
  qed
qed

lemma on_execute_state:
  fixes exec_qty :: u32
  assumes "omap b oid = Some m0"
  defines "k \<equiv> min exec_qty (m_qty m0)"
  defines "b' \<equiv> set_side b (m_sb m0) (snd (SideBook_remove (side_of b (m_sb m0)) (m_idx m0) (m_vid m0) k))"
  shows "snd (on_execute b oid exec_qty) = b'\<lparr>omap := (omap b)(oid \<mapsto> m0\<lparr>m_qty := m_qty m0 - k\<rparr>)\<rparr> \<or>
         snd (on_execute b oid exec_qty) = b'\<lparr>omap := (omap b)(oid := None)\<rparr>"
proof (cases "levels (side_of b (m_sb m0)) (m_idx m0)")
  case None
  then show ?thesis
    using assms(1)
    by (simp add: on_execute_def Let_def side_of_omap_update SideBook_remove_absent
        b'_def k_def set_side_same)
next
  case (Some pl)
  then show ?thesis
    using assms(1)
    by (auto simp: on_execute_def Let_def side_of_omap_update SideBook_remove_def
        b'_def k_def set_side_omap_update omap_set_side split: option.splits)
qed

lemma on_execute_inv:
  assumes "book_inv b"
  shows "book_inv (snd (on_execute b oid exec_qty))"
proof (cases "omap b oid")
  case None
  then show ?thesis using assms by (simp add: on_execute_def)
next
  case (Some m)
  define k where "k = min exec_qty (m_qty m)"
  define b' where "b' = set_side b (m_sb m) (snd (SideBook_remove (side_of b (m_sb m)) (m_idx m) (m_vid m) k))"
  define m' where "m' = m\<lparr>m_qty := m_qty m - k\<rparr>"
  have v: "m_vid m < NUM_VENUES" using assms Some by (auto simp: book_inv_def)
  have fin: "finite (dom (omap b))" using assms by (simp add: book_inv_def)
  have so: "\<And>s. side_ok (side_of b s)" and fl: "\<And>s. is_bid (side_of b s) = s"
    using book_inv_sides[OF assms] by simp_all
  have R: "\<And>s t v. v < NUM_VENUES \<Longrightarrow>
      resting ((omap b)(oid := None)) s t v + contrib m s t v \<le> lvl_qty (side_of b s) t v"
    using book_inv_R[OF assms Some] by simp
  have k: "unat k \<le> unat (m_qty m)"
    by (simp add: k_def word_le_nat_alt[symmetric])
  have S: "side_ok (side_of b' s) \<and> is_bid (side_of b' s) = s \<and>
         (\<forall>v'<NUM_VENUES. resting ((omap b)(oid := None)) s t v' + contrib m' s t v'
             \<le> lvl_qty (side_of b' s) t v')" for s t
    unfolding b'_def m'_def by (rule remove_step[OF so fl v R k])
  have inv: "book_inv (b'\<lparr>omap := om\<rparr>)"
    if om: "om = (omap b)(oid \<mapsto> m') \<or> om = (omap b)(oid := None)" for om
  proof (rule book_inv_sideI)
    fix s show "side_ok (side_of (b'\<lparr>omap := om\<rparr>) s)"
      using S by (simp add: side_of_omap_update)
  next
    fix s show "is_bid (side_of (b'\<lparr>omap := om\<rparr>) s) = s"
      using S by (simp add: side_of_omap_update)
  next
    show "finite (dom (omap (b'\<lparr>omap := om\<rparr>)))"
      using fin om by auto
  next
    fix oid' x assume "omap (b'\<lparr>omap := om\<rparr>) oid' = Some x"
    then show "m_vid x < NUM_VENUES"
      using assms om v by (auto simp: book_inv_def m'_def split: if_splits)
  next
    fix s t v' assume v': "v' < NUM_VENUES"
    have le: "resting ((omap b)(oid := None)) s t v' + contrib m' s t v' \<le> lvl_qty (side_of b' s) t v'"
      using S[of s t] v' by blast
    have "resting om s t v' \<le> resting ((omap b)(oid := None)) s t v' + contrib m' s t v'"
      using om resting_update[OF fin, of oid m' s t v'] by auto
    then show "resting (omap (b'\<lparr>omap := om\<rparr>)) s t v' \<le> lvl_qty (side_of (b'\<lparr>omap := om\<rparr>) s) t v'"
      using le by (simp add: side_of_omap_update)
  qed
  show ?thesis
    using on_execute_state[OF Some, of exec_qty] inv
    by (auto simp: b'_def k_def m'_def)
qed

lemma on_replace_inv:
  assumes "book_inv b" "add_ok b side_b price q"
  shows "book_inv (snd (on_replace b new_oid old_oid venue_code side_b price q))"
proof -
  have 1: "book_inv (snd (on_add b new_oid venue_code side_b price q))"
    using assms by (rule on_add_inv)
  then have 2: "book_inv (snd (on_cancel (snd (on_add b new_oid venue_code side_b price q)) old_oid))"
    by (rule on_cancel_inv)
  show ?thesis
    using 1 2 by (auto simp: on_replace_def split: prod.splits sum.splits)
qed

lemma init_inv: "book_inv OrderBook_init"
  by (simp add: book_inv_def OrderBook_init_def SideBook_init_def side_ok_def resting_def
      lvl_qty_def side_of_def)

lemma reachable_inv: "reachable b \<Longrightarrow> book_inv b"
  by (induction rule: reachable.induct)
    (simp_all add: init_inv on_add_inv on_cancel_inv on_replace_inv on_execute_inv)

lemma apply_event_reachable: "reachable b \<Longrightarrow> event_ok b e \<Longrightarrow> reachable (apply_event b e)"
  by (cases e) (auto intro: reachable.intros)

lemma on_batch_reachable:
  "reachable b \<Longrightarrow> batch_ok b es \<Longrightarrow> reachable (snd (on_batch b es out))"
proof (induction es arbitrary: b out)
  case Nil
  then show ?case by simp
next
  case (Cons e es)
  have r: "reachable (apply_event b e)" and ok: "batch_ok (apply_event b e) es"
    using Cons.prems apply_event_reachable by auto
  show ?case
  proof (cases e)
    case (Add oid venue_code side_b price q)
    then show ?thesis
      using r Cons.IH[OF r ok]
      by (cases "on_add b oid venue_code side_b price q") (auto split: sum.splits option.splits)
  next
    case (Cancel oid)
    then show ?thesis
      using r Cons.IH[OF r ok]
      by (cases "on_cancel b oid") (auto split: sum.splits)
  next
    case (Replace new_oid old_oid venue_code side_b price q)
    then show ?thesis
      using r Cons.IH[OF r ok]
      by (cases "on_replace b new_oid old_oid venue_code side_b price q")
         (auto split: sum.splits option.splits)
  next
    case (Execute oid exec_qty)
    then show ?thesis
      using r Cons.IH[OF r ok]
      by (cases "on_execute b oid exec_qty") (auto split: sum.splits option.splits)
  next
    case (Other cmd)
    then show ?thesis using Cons.prems by simp
  qed
qed

lemma live_level:
  assumes "book_inv b" "omap b oid = Some m" "m_qty m \<noteq> 0"
  shows "\<exists>pl. levels (side_of b (m_sb m)) (m_idx m) = Some pl \<and> level_ok pl"
proof -
  have v: "m_vid m < NUM_VENUES" using assms(1,2) by (auto simp: book_inv_def)
  have "0 < contrib m (m_sb m) (m_idx m) (m_vid m)"
    using assms(3) by (simp add: contrib_def unat_gt_0)
  then have "0 < lvl_qty (side_of b (m_sb m)) (m_idx m) (m_vid m)"
    using book_inv_R[OF assms(1,2) v, of "m_sb m" "m_idx m"] by simp
  then obtain pl where "levels (side_of b (m_sb m)) (m_idx m) = Some pl"
    by (auto simp: lvl_qty_def split: option.splits)
  then show ?thesis
    using book_inv_sides[OF assms(1), of "m_sb m"] by (auto simp: side_ok_def)
qed

lemma on_add_returns:
  assumes "side_ok (side_of b (side_b = ''BID''))" "VENUE_MAP venue_code = Some v"
  shows "\<exists>res. fst (on_add b oid venue_code side_b price q) = Inr res"
proof -
  define sb where "sb = side_of b (side_b = ''BID'')"
  define t where "t = p2i price"
  obtain p sb' where add: "SideBook_add sb t v q = (p, sb')"
    by (cases "SideBook_add sb t v q")
  have fin: "finite (ticks sb)" and td: "ticks sb = dom (levels sb)"
    using assms(1) unfolding side_ok_def sb_def by blast+
  show ?thesis
  proof (cases "p = INT_MIN")
    case True
    then show ?thesis
      using assms(2) add by (simp add: on_add_def Let_def flip: sb_def t_def)
  next
    case False
    then have p: "p = best_idx sb" and ne: "ticks sb \<noteq> {}"
      using fst_SideBook_add[of sb t v q] add by simp_all
    have "levels sb p \<noteq> None"
      using best_idx_in_ticks[OF fin ne] td p by auto
    then have "levels sb' p \<noteq> None" "levels sb' t \<noteq> None"
      using levels_after_add[of sb _ t v q] add by simp_all
    then obtain l1 l2 where "levels sb' p = Some l1" "levels sb' t = Some l2" by auto
    then show ?thesis
      using assms(2) add False
      by (simp add: on_add_def Let_def nbbo_tuple_def flip: sb_def t_def)
  qed
qed

lemma on_cancel_returns:
  assumes "\<And>m. omap b oid = Some m \<Longrightarrow> levels (side_of b (m_sb m)) (m_idx m) \<noteq> None"
  shows "fst (on_cancel b oid) = Inr ()"
proof (cases "omap b oid")
  case None
  then show ?thesis by (simp add: on_cancel_def)
next
  case (Some m)
  then show ?thesis
    using SideBook_remove_returns[OF assms[OF Some], of "m_vid m" "m_qty m"]
    by (cases "SideBook_remove (side_of b (m_sb m)) (m_idx m) (m_vid m) (m_qty m)")
       (simp add: on_cancel_def Let_def side_of_omap_update)
qed

lemma on_add_returns_keys:
  assumes "ticks_are_keys (side_of b (side_b = ''BID''))" "VENUE_MAP venue_code = Some v"
  shows "\<exists>res. fst (on_add b oid venue_code side_b price q) = Inr res"
proof -
  define sb where "sb = side_of b (side_b = ''BID'')"
  define t where "t = p2i price"
  obtain p sb' where add: "SideBook_add sb t v q = (p, sb')"
    by (cases "SideBook_add sb t v q")
  have fin: "finite (ticks sb)" and td: "ticks sb = dom (levels sb)"
    using assms(1) unfolding ticks_are_keys_def sb_def by blast+
  show ?thesis
  proof (cases "p = INT_MIN")
    case True
    then show ?thesis
      using assms(2) add by (simp add: on_add_def Let_def flip: sb_def t_def)
  next
    case False
    then have p: "p = best_idx sb" and ne: "ticks sb \<noteq> {}"
      using fst_SideBook_add[of sb t v q] add by simp_all
    have "levels sb p \<noteq> None"
      using best_idx_in_ticks[OF fin ne] td p by auto
    then have "levels sb' p \<noteq> None" "levels sb' t \<noteq> None"
      using levels_after_add[of sb _ t v q] add by simp_all
    then obtain l1 l2 where "levels sb' p = Some l1" "levels sb' t = Some l2" by auto
    then show ?thesis
      using assms(2) add False
      by (simp add: on_add_def Let_def nbbo_tuple_def flip: sb_def t_def)
  qed
qed

text \<open>
  Whatever \<open>old_oid\<close> is, a replace with a known venue ends in the state of the add
  followed by the cancel; only the result can differ, when the cancel throws.
\<close>

lemma replace_state_is_add_then_cancel:
  assumes "ticks_are_keys (side_of b (side_b = ''BID''))" and "VENUE_MAP venue_code = Some v"
  shows "snd (on_replace b new_oid old_oid venue_code side_b price q) =
         snd (add_then_cancel b new_oid old_oid venue_code side_b price q)"
proof -
  obtain res where "fst (on_add b new_oid venue_code side_b price q) = Inr res"
    using on_add_returns_keys[OF assms] by blast
  then obtain b1 where add: "on_add b new_oid venue_code side_b price q = (Inr res, b1)"
    by (cases "on_add b new_oid venue_code side_b price q") auto
  obtain r b2 where can: "on_cancel b1 old_oid = (r, b2)"
    by (cases "on_cancel b1 old_oid")
  show ?thesis
    by (cases r) (simp_all add: on_replace_def add_then_cancel_def add can)
qed

text \<open>
  An execution that takes the whole aggregate of its level always ends in the exception
  of the second \<^verbatim>\<open>at\<close>; one that takes the whole order but leaves quantity at the level
  erases the order, and a later cancel of it does nothing.
\<close>

lemma execute_depleting_level_raises:
  assumes "omap b oid = Some m"
    and "levels (side_of b (m_sb m)) (m_idx m) = Some pl"
    and "agg pl = min exec_qty (m_qty m)"
  shows "fst (on_execute b oid exec_qty) = Inl out_of_range"
  using assms
  by (simp add: on_execute_def Let_def SideBook_remove_def adjust_def side_of_omap_update)

lemma execute_full_when_level_survives:
  assumes "omap b oid = Some m"
    and "levels (side_of b (m_sb m)) (m_idx m) = Some pl"
    and "m_qty m \<le> exec_qty"
    and "agg pl \<noteq> m_qty m"
  shows "omap (snd (on_execute b oid exec_qty)) oid = None \<and>
         on_cancel (snd (on_execute b oid exec_qty)) oid = (Inr (), snd (on_execute b oid exec_qty))"
proof -
  have k: "min exec_qty (m_qty m) = m_qty m" using assms(3) by (simp add: min_def)
  have "omap (snd (on_execute b oid exec_qty)) oid = None"
    using assms(1,2,4)
    by (simp add: on_execute_def Let_def k SideBook_remove_def adjust_def side_of_omap_update
        omap_set_side)
  then show ?thesis by (simp add: on_cancel_def)
qed

text \<open>
  In a book that satisfies the invariant every indexed order of positive quantity rests
  at a level that is present and has a positive aggregate.
\<close>

lemma live_level_agg:
  assumes "book_inv b" "omap b oid = Some m" "m_qty m \<noteq> 0"
  shows "\<exists>pl. levels (side_of b (m_sb m)) (m_idx m) = Some pl \<and> agg pl \<noteq> 0"
  using live_level[OF assms] by (auto simp: level_ok_def)

section \<open>The undeclared identifier of the sentinel test\<close>

text \<open>
  \<open>SideBook_add\<close> and \<open>on_add\<close> are the functions as written with \<^verbatim>\<open>prev\<close> read
  as \<^verbatim>\<open>prev_best\<close>.  No reading changes the state.  The result of the first add
  on an empty side does depend on it: none when \<^verbatim>\<open>prev\<close> holds the sentinel, the
  exception of \<^verbatim>\<open>nbbo_tuple\<close> otherwise.
\<close>

lemma SideBook_add_is_with: "SideBook_add sb i v q = SideBook_add_with (best_idx sb) sb i v q"
  by (simp add: SideBook_add_def SideBook_add_with_def)

lemma on_add_is_with:
  "on_add b oid venue_code side_b price q =
   on_add_with (best_idx (side_of b (side_b = ''BID''))) b oid venue_code side_b price q"
  by (cases "VENUE_MAP venue_code") (simp_all add: on_add_def on_add_with_def SideBook_add_is_with)



lemma on_add_with_sentinel:
  assumes "VENUE_MAP venue_code = Some v" and "prev = sentinel (is_bid (side_of b (side_b = ''BID'')))"
  shows "fst (on_add_with prev b oid venue_code side_b price q) = Inr None"
  using assms by (simp add: on_add_with_def SideBook_add_with_def Let_def)

lemma on_add_with_not_sentinel:
  assumes "VENUE_MAP venue_code = Some v"
    and "prev \<noteq> sentinel (is_bid (side_of b (side_b = ''BID'')))"
    and "ticks (side_of b (side_b = ''BID'')) = {}"
    and "levels (side_of b (side_b = ''BID'')) = Map.empty"
    and "p2i price \<noteq> sentinel (is_bid (side_of b (side_b = ''BID'')))"
  shows "fst (on_add_with prev b oid venue_code side_b price q) = Inl out_of_range"
  using assms
  by (auto simp: on_add_with_def SideBook_add_with_def Let_def best_idx_def PriceLevel_init_def
      nbbo_tuple_def sentinel_def INT_MIN_def INT_MAX_def split: if_splits)

section \<open>Ticks and keys in every state\<close>

lemma keys_ok_side: "keys_ok b \<longleftrightarrow> (\<forall>s. ticks_are_keys (side_of b s))"
  by (auto simp: keys_ok_def side_of_def)

lemma keys_ok_set_side:
  "keys_ok b \<Longrightarrow> ticks_are_keys sb \<Longrightarrow> keys_ok ((set_side b s sb)\<lparr>omap := om\<rparr>)"
  by (auto simp: keys_ok_def set_side_def)

lemma keys_ok_omap: "keys_ok (b\<lparr>omap := om\<rparr>) = keys_ok b"
  by (simp add: keys_ok_def)

lemma keys_ok_on_add: "keys_ok b \<Longrightarrow> keys_ok (snd (on_add b oid venue_code side_b price q))"
proof (cases "VENUE_MAP venue_code")
  case None
  then show "keys_ok b \<Longrightarrow> ?thesis" by (simp add: on_add_def)
next
  case (Some v)
  assume k: "keys_ok b"
  then have "ticks_are_keys (side_of b (side_b = ''BID''))" by (simp add: keys_ok_side)
  then show ?thesis
    using k by (simp add: snd_on_add[OF Some] keys_ok_set_side ticks_are_keys_add)
qed

lemma keys_ok_on_cancel: "keys_ok b \<Longrightarrow> keys_ok (snd (on_cancel b oid))"
proof (cases "omap b oid")
  case None
  then show "keys_ok b \<Longrightarrow> ?thesis" by (simp add: on_cancel_def)
next
  case (Some m)
  assume k: "keys_ok b"
  then have "ticks_are_keys (snd (SideBook_remove (side_of b (m_sb m)) (m_idx m) (m_vid m) (m_qty m)))"
    by (simp add: keys_ok_side ticks_are_keys_remove)
  then have "keys_ok ((set_side b (m_sb m)
        (snd (SideBook_remove (side_of b (m_sb m)) (m_idx m) (m_vid m) (m_qty m))))\<lparr>omap := (omap b)(oid := None)\<rparr>)"
    using k by (rule keys_ok_set_side[rotated])
  then show ?thesis
    using Some
    by (cases "SideBook_remove (side_of b (m_sb m)) (m_idx m) (m_vid m) (m_qty m)")
       (simp add: on_cancel_def Let_def side_of_omap_update set_side_omap_update)
qed

lemma keys_ok_on_execute: "keys_ok b \<Longrightarrow> keys_ok (snd (on_execute b oid exec_qty))"
proof (cases "omap b oid")
  case None
  then show "keys_ok b \<Longrightarrow> ?thesis" by (simp add: on_execute_def)
next
  case (Some m)
  assume k: "keys_ok b"
  define kq where "kq = min exec_qty (m_qty m)"
  define b' where "b' = set_side b (m_sb m) (snd (SideBook_remove (side_of b (m_sb m)) (m_idx m) (m_vid m) kq))"
  have "ticks_are_keys (snd (SideBook_remove (side_of b (m_sb m)) (m_idx m) (m_vid m) kq))"
    using k by (simp add: keys_ok_side ticks_are_keys_remove)
  then have "keys_ok (b'\<lparr>omap := om\<rparr>)" for om
    unfolding b'_def using k by (rule keys_ok_set_side[rotated])
  then show ?thesis
    using on_execute_state[OF Some, of exec_qty] by (auto simp: b'_def kq_def)
qed

lemma keys_ok_on_replace:
  "keys_ok b \<Longrightarrow> keys_ok (snd (on_replace b new_oid old_oid venue_code side_b price q))"
  using keys_ok_on_cancel[OF keys_ok_on_add, of b new_oid venue_code side_b price q old_oid]
    keys_ok_on_add[of b new_oid venue_code side_b price q]
  by (auto simp: on_replace_def split: prod.splits sum.splits)

lemma keys_ok_init: "keys_ok OrderBook_init"
  by (simp add: keys_ok_def ticks_are_keys_def OrderBook_init_def SideBook_init_def)

lemma reached_keys_ok: "reached b \<Longrightarrow> keys_ok b"
  by (induction rule: reached.induct)
    (simp_all add: keys_ok_init keys_ok_on_add keys_ok_on_cancel keys_ok_on_replace keys_ok_on_execute)

lemma reachable_reached: "reachable b \<Longrightarrow> reached b"
  by (induction rule: reachable.induct) (auto intro: reached.intros)

section \<open>The scenarios, evaluated\<close>

lemma p2i_values: "p2i 10 = 1000" "p2i (1001 / 100) = 1001" by (simp_all add: p2i_def INV_TICK_def)

lemma p2i_values_ask: "p2i 20 = 2000" "p2i (1999 / 100) = 1999"
  by (simp_all add: p2i_def INV_TICK_def)

lemma VENUE_MAP_values: "VENUE_MAP CHR ''C'' = Some 0" "VENUE_MAP CHR ''I'' = Some 1" "VENUE_MAP CHR ''B'' = Some 2"
  "VENUE_MAP CHR ''A'' = Some 4" "VENUE_MAP CHR ''M'' = Some 3"
  by (simp_all add: VENUE_MAP_def VENUE_CODE_def)

lemma list_update_numeral: "(x # xs)[numeral k := y] = x # xs[pred_numeral k := y]"
  by (simp add: numeral_eq_Suc)

lemma init_level: "PriceLevel_init = \<lparr>vqty = [0,0,0,0,0,0,0,0,0,0,0,0,0,0], agg = 0\<rparr>"
  unfolding PriceLevel_init_def NUM_VENUES_def by (simp add: numeral_eq_Suc)

lemmas eval_defs = list_update_numeral init_level insert_Diff_if insert_commute on_add_def OrderBook_init_def SideBook_init_def SideBook_add_def Let_def
      side_of_def set_side_def best_idx_def sentinel_def adjust_def NUM_VENUES_def
      INT_MAX_def INT_MIN_def nbbo_tuple_def i2p_def TICK_def on_cancel_def on_execute_def SideBook_remove_def
      on_replace_def best_price_def best_bid_def best_ask_def

lemma venue_string_C: "venue_string \<lparr>vqty = [5,0,0,0,0,0,0,0,0,0,0,0,0,0], agg = 5\<rparr> = ''C''"
  by (simp add: venue_string_def VENUE_CODE_def NUM_VENUES_def upt_rec)

lemma venue_string_A: "venue_string \<lparr>vqty = [0,0,0,0,4,0,0,0,0,0,0,0,0,0], agg = 4\<rparr> = ''A''"
  by (simp add: venue_string_def VENUE_CODE_def NUM_VENUES_def upt_rec)

lemma venue_string_B: "venue_string \<lparr>vqty = [0,0,2,0,0,0,0,0,0,0,0,0,0,0], agg = 2\<rparr> = ''B''"
  by (simp add: venue_string_def VENUE_CODE_def NUM_VENUES_def upt_rec)

lemma venue_string_BI: "venue_string \<lparr>vqty = [0,3,2,0,0,0,0,0,0,0,0,0,0,0], agg = 5\<rparr> = ''BI''"
  by (simp add: venue_string_def VENUE_CODE_def NUM_VENUES_def upt_rec less_char_def)

lemma wrap32: "(4294967296::u32) = 0"
  by simp

lemma on_add_a: "on_add OrderBook_init ''a'' CHR ''C'' ''BID'' 10 5 = (Inr None, book1)"
  by (simp add: eval_defs p2i_values VENUE_MAP_values book1_def)

lemma on_add_b: "on_add book1 ''b'' CHR ''I'' ''BID'' (1001 / 100) 3 =
   (Inr (Some \<lparr>new_price = 1001 / 100, new_agg = 3, old_price = 10, old_agg = 5, old_venue_string = ''C''\<rparr>), book2)"
  by (simp add: eval_defs p2i_values VENUE_MAP_values book1_def book2_def venue_string_C)

lemma on_add_c: "on_add book2 ''c'' CHR ''B'' ''BID'' (1001 / 100) 2 = (Inr None, book3)"
  by (simp add: eval_defs p2i_values VENUE_MAP_values book2_def book3_def)

lemma on_execute_b: "on_execute book3 ''b'' 3 =
   (Inr (Some \<lparr>exec_price = 1001 / 100, level_remaining = 2,
        per_venue_qty = [0,0,2,0,0,0,0,0,0,0,0,0,0,0], venue_str = ''B''\<rparr>), book4)"
  by (simp add: eval_defs book3_def book4_def venue_string_B fun_upd_twist)

lemma on_execute_c: "on_execute book4 ''c'' 2 = (Inl out_of_range, book5)"
  by (simp add: eval_defs book4_def book5_def)

lemma on_add_x: "on_add OrderBook_init ''x'' CHR ''A'' ''ASK'' 20 4 = (Inr None, book_x)"
  by (simp add: eval_defs p2i_values_ask VENUE_MAP_values book_x_def)

lemma p2i_values_more: "p2i (2625 / 256) = 1025" "p2i (39 / 2) = 1950"
  by (simp_all add: p2i_def INV_TICK_def)

lemma on_replace_half:
  "on_replace book_x ''y'' ''x'' CHR ''A'' ''ASK'' (39 / 2) 4 =
    (Inr (Some \<lparr>new_price = 39 / 2, new_agg = 4, old_price = 20, old_agg = 4,
                old_venue_string = ''A''\<rparr>), book_half)"
  by (simp add: eval_defs p2i_values_more VENUE_MAP_values book_x_def book_half_def venue_string_A)

lemma on_execute_a: "on_execute book1 ''a'' 5 = (Inl out_of_range, book_stale)"
  by (simp add: eval_defs book1_def book_stale_def)

lemma on_cancel_stale: "on_cancel book_stale ''a'' = (Inl out_of_range, OrderBook_init)"
  by (simp add: eval_defs book_stale_def)

lemma on_add_wrapped:
  "snd (on_add (snd (on_add (snd (on_add (snd (on_add OrderBook_init
      ''a'' CHR ''C'' ''BID'' 10 1073741824))
      ''b'' CHR ''I'' ''BID'' 10 1073741824))
      ''c'' CHR ''B'' ''BID'' 10 1073741824))
      ''d'' CHR ''M'' ''BID'' 10 1073741824) = book_wrapped"
  by (simp add: eval_defs p2i_values VENUE_MAP_values book_wrapped_def wrap32)

lemma reachable_book1: "reachable book1"
proof -
  have "add_ok OrderBook_init ''BID'' 10 5"
    by (simp add: add_ok_def agg_at_def OrderBook_init_def SideBook_init_def side_of_def)
  from r_add[OF r_init this, of "''a''" "CHR ''C''"] show ?thesis by (simp add: on_add_a)
qed

lemma reachable_book2: "reachable book2"
proof -
  have "add_ok book1 ''BID'' (1001 / 100) 3"
    by (simp add: add_ok_def agg_at_def book1_def side_of_def p2i_values)
  from r_add[OF reachable_book1 this, of "''b''" "CHR ''I''"] show ?thesis by (simp add: on_add_b)
qed

lemma reachable_book3: "reachable book3"
proof -
  have "add_ok book2 ''BID'' (1001 / 100) 2"
    by (simp add: add_ok_def agg_at_def book2_def side_of_def p2i_values)
  from r_add[OF reachable_book2 this, of "''c''" "CHR ''B''"] show ?thesis by (simp add: on_add_c)
qed

lemma reachable_book4: "reachable book4"
  using r_execute[OF reachable_book3, of "''b''" 3] by (simp add: on_execute_b)

lemma reachable_book_x: "reachable book_x"
proof -
  have "add_ok OrderBook_init ''ASK'' 20 4"
    by (simp add: add_ok_def agg_at_def OrderBook_init_def SideBook_init_def side_of_def)
  from r_add[OF r_init this, of "''x''" "CHR ''A''"] show ?thesis by (simp add: on_add_x)
qed

lemma on_cancel_ghost: "on_cancel book2 ''ghost'' = (Inr (), book2)"
  by (simp add: on_cancel_def book2_def)

lemma on_batch_scenario:
  "on_batch OrderBook_init
     [Add ''a'' CHR ''C'' ''BID'' 10 5, Add ''b'' CHR ''I'' ''BID'' (1001 / 100) 3,
      Cancel ''ghost'', Add ''c'' CHR ''B'' ''BID'' (1001 / 100) 2, Execute ''b'' 3,
      Execute ''c'' 2, Cancel ''a''] [] =
   (Inl out_of_range, book5)"
  by (simp add: on_add_a on_add_b on_add_c on_execute_b on_execute_c on_cancel_ghost)

lemma snd_on_add_a: "snd (on_add OrderBook_init ''a'' CHR ''C'' ''BID'' 10 5) = book1"
  by (simp add: snd_on_add[OF VENUE_MAP_values(1)] p2i_values book1_def OrderBook_init_def
      SideBook_init_def SideBook_add_def Let_def side_of_def set_side_def init_level adjust_def
      list_update_numeral)

lemma on_cancel_z_wrapped:
  "on_cancel (snd (on_add book_wrapped ''z'' CHR ''C'' ''BID'' 10 5)) ''z'' = (Inr (), book_emptied)"
  by (simp add: eval_defs p2i_values VENUE_MAP_values book_wrapped_def book_emptied_def)

lemma on_execute_a_wrapped: "on_execute book_wrapped ''a'' 0 = (Inl out_of_range, book_emptied)"
  by (simp add: eval_defs book_wrapped_def book_emptied_def fun_upd_twist)

lemma snd_on_add_k: "snd (on_add book_emptied ''k'' CHR ''A'' ''ASK'' 20 1) = book_k"
  by (simp add: snd_on_add[OF VENUE_MAP_values(4)] p2i_values_ask book_emptied_def book_k_def
      SideBook_add_def Let_def side_of_def set_side_def init_level adjust_def list_update_numeral)

lemma on_add_n: "fst (on_add book_k ''n'' CHR ''A'' ''ASK'' 20 1) = Inr None"
  by (simp add: eval_defs p2i_values_ask VENUE_MAP_values book_k_def)

lemma on_replace_n: "fst (on_replace book_k ''n'' ''a'' CHR ''A'' ''ASK'' 20 1) = Inl out_of_range"
  by (simp add: eval_defs p2i_values_ask VENUE_MAP_values book_k_def)

lemma on_replace_same_id: "on_replace book1 ''x'' ''x'' CHR ''C'' ''BID'' 10 4 = (Inr None, book1)"
  by (simp add: eval_defs p2i_values VENUE_MAP_values book1_def)

section \<open>The claims\<close>




text \<open>
  Claim C2.  On a side book that is sound, not empty and holds ticks in range, an
  \<open>on_add\<close> whose tick is strictly better than the best of the side (higher for bids,
  lower for asks) returns the change record made of the new price, the aggregate of the
  new level (the added quantity), the old best price, the aggregate of the old best level
  and the venue string of the old best level.  After \<open>a\<close> bids 5 at 10.00 on C, the bid
  of 3 at 10.01 on I returns (10.01, 3, 10.00, 5, "C").
\<close>

theorem improving_add_reports_old_best:
  assumes "side_ok (side_of b (side_b = ''BID''))"
    and "is_bid (side_of b (side_b = ''BID'')) = (side_b = ''BID'')"
    and "ticks (side_of b (side_b = ''BID'')) \<noteq> {}"
    and "ticks_in_range (side_of b (side_b = ''BID''))"
    and "VENUE_MAP venue_code = Some v"
    and "if side_b = ''BID'' then best_idx (side_of b (side_b = ''BID'')) < p2i price
         else p2i price < best_idx (side_of b (side_b = ''BID''))"
  shows "\<exists>old_pl. levels (side_of b (side_b = ''BID'')) (best_idx (side_of b (side_b = ''BID''))) = Some old_pl \<and>
     fst (on_add b oid venue_code side_b price q) =
       Inr (Some \<lparr>new_price = i2p (p2i price), new_agg = q,
                  old_price = i2p (best_idx (side_of b (side_b = ''BID''))), old_agg = agg old_pl,
                  old_venue_string = venue_string old_pl\<rparr>)"
proof -
  define s where "s = (side_b = ''BID'')"
  define sb where "sb = side_of b s"
  define t where "t = p2i price"
  have fin: "finite (ticks sb)" and td: "ticks sb = dom (levels sb)"
    using assms(1) unfolding side_ok_def sb_def s_def by blast+
  have ne: "ticks sb \<noteq> {}" using assms(3) by (simp add: sb_def s_def)
  have bin: "best_idx sb \<in> ticks sb" using best_idx_in_ticks[OF fin ne] .
  then obtain old_pl where old: "levels sb (best_idx sb) = Some old_pl"
    using td by auto
  have rng: "0 \<le> best_idx sb" "best_idx sb < INT_MAX"
    using assms(4) bin by (auto simp: ticks_in_range_def sb_def s_def)
  have flag: "is_bid sb = s" using assms(2) by (simp add: sb_def s_def)
  have imp: "if s then best_idx sb < t else t < best_idx sb"
    using assms(6) unfolding sb_def s_def t_def by (auto split: if_splits)
  have tn: "t \<notin> ticks sb"
  proof
    assume "t \<in> ticks sb"
    then have "t \<le> Max (ticks sb)" "Min (ticks sb) \<le> t" using fin by simp_all
    then show False using imp ne flag by (auto simp: best_idx_def split: if_splits)
  qed
  then have lt: "levels sb t = None" using td by auto
  have nb: "best_idx (sb\<lparr>ticks := insert t (ticks sb), levels := (levels sb)(t \<mapsto> adjust PriceLevel_init v q)\<rparr>) = t"
  proof (cases s)
    case True
    then have "Max (ticks sb) < t" using imp ne flag by (simp add: best_idx_def)
    then have "Max (insert t (ticks sb)) = t"
      using Max_insert[OF fin ne, of t] by simp
    then show ?thesis using True flag by (simp add: best_idx_def)
  next
    case False
    then have "t < Min (ticks sb)" using imp ne flag by (simp add: best_idx_def)
    then have "Min (insert t (ticks sb)) = t"
      using Min_insert[OF fin ne, of t] by simp
    then show ?thesis using False flag by (simp add: best_idx_def)
  qed
  have add: "SideBook_add sb t v q =
      (best_idx sb, sb\<lparr>ticks := insert t (ticks sb), levels := (levels sb)(t \<mapsto> adjust PriceLevel_init v q)\<rparr>)"
    using lt nb rng imp flag
    by (auto simp: SideBook_add_def Let_def PriceLevel_init_def sentinel_def INT_MAX_def)
  have neq: "best_idx sb \<noteq> t" using imp by (auto split: if_splits)
  have "fst (on_add b oid venue_code side_b price q) =
       Inr (Some \<lparr>new_price = i2p t, new_agg = q,
                  old_price = i2p (best_idx sb), old_agg = agg old_pl,
                  old_venue_string = venue_string old_pl\<rparr>)"
    using assms(5) add old rng neq
    by (simp add: on_add_def Let_def nbbo_tuple_def INT_MIN_def adjust_def PriceLevel_init_def
        flip: s_def sb_def t_def)
  then show ?thesis using old by (simp add: sb_def s_def t_def)
qed

theorem improving_add_witness:
  "on_add book1 ''b'' CHR ''I'' ''BID'' (1001 / 100) 3 =
     (Inr (Some \<lparr>new_price = 1001 / 100, new_agg = 3, old_price = 10, old_agg = 5,
                 old_venue_string = ''C''\<rparr>), book2) \<and>
   best_bid book2 = Some (1001 / 100)"
proof -
  have so: "side_ok (side_of book1 (''BID'' = ''BID''))"
    using book_inv_sides[OF reachable_inv[OF reachable_book1], of True] by simp
  have "\<exists>old_pl. levels (side_of book1 (''BID'' = ''BID'')) (best_idx (side_of book1 (''BID'' = ''BID''))) = Some old_pl \<and>
     fst (on_add book1 ''b'' CHR ''I'' ''BID'' (1001 / 100) 3) =
       Inr (Some \<lparr>new_price = i2p (p2i (1001 / 100)), new_agg = 3,
                  old_price = i2p (best_idx (side_of book1 (''BID'' = ''BID''))), old_agg = agg old_pl,
                  old_venue_string = venue_string old_pl\<rparr>)"
    by (rule improving_add_reports_old_best[OF so _ _ _ VENUE_MAP_values(2)])
       (simp_all add: book1_def side_of_def best_idx_def ticks_in_range_def INT_MAX_def p2i_values)
  then show ?thesis
    by (simp add: on_add_b best_bid_def book2_def best_price_def best_idx_def i2p_def TICK_def)
qed

text \<open>
  Claim C3 says that an execution that empties its price level returns a report with
  aggregate 0, all-zero venue quantities and an empty venue string.  The source does not:
  \<^verbatim>\<open>remove\<close> erases the emptied level and the read \<^verbatim>\<open>levels().at(m.idx)\<close> that
  follows throws.  The scenario of the specification, step by step: the three adds and
  the execution of \<open>b\<close> return what the specification says, and the execution of the
  last 2 shares of \<open>c\<close> ends in \<open>out_of_range\<close>, leaving \<open>c\<close> in the index with
  quantity 0.
\<close>

theorem execute_last_shares_raises:
  "on_add OrderBook_init ''a'' CHR ''C'' ''BID'' 10 5 = (Inr None, book1) \<and>
   on_add book1 ''b'' CHR ''I'' ''BID'' (1001 / 100) 3 =
     (Inr (Some \<lparr>new_price = 1001 / 100, new_agg = 3, old_price = 10, old_agg = 5,
                 old_venue_string = ''C''\<rparr>), book2) \<and>
   on_add book2 ''c'' CHR ''B'' ''BID'' (1001 / 100) 2 = (Inr None, book3) \<and>
   on_execute book3 ''b'' 3 =
     (Inr (Some \<lparr>exec_price = 1001 / 100, level_remaining = 2,
                 per_venue_qty = [0,0,2,0,0,0,0,0,0,0,0,0,0,0], venue_str = ''B''\<rparr>), book4) \<and>
   on_execute book4 ''c'' 2 = (Inl out_of_range, book5)"
  by (simp add: on_add_a on_add_b on_add_c on_execute_b on_execute_c)

text \<open>
  Claim C4 says that an execution of at least the remaining quantity removes the order
  from the index and that a later cancel of it changes nothing.  When that execution
  empties the level the source throws before it erases the index entry: after \<open>a\<close> bids
  5 and is executed for 5, \<open>a\<close> is still in the index with quantity 0, and the cancel
  that follows erases the entry and then throws as well.
\<close>

theorem full_execute_leaves_order_indexed:
  "on_add OrderBook_init ''a'' CHR ''C'' ''BID'' 10 5 = (Inr None, book1) \<and>
   on_execute book1 ''a'' 5 = (Inl out_of_range, book_stale) \<and>
   omap book_stale ''a'' = Some \<lparr>m_sb = True, m_idx = 1000, m_vid = 0, m_qty = 0\<rparr> \<and>
   on_cancel book_stale ''a'' = (Inl out_of_range, OrderBook_init) \<and>
   omap OrderBook_init ''a'' = None"
proof -
  have "omap book_stale ''a'' = Some \<lparr>m_sb = True, m_idx = 1000, m_vid = 0, m_qty = 0\<rparr>"
    by (simp add: book_stale_def)
  moreover have "omap OrderBook_init ''a'' = None"
    by (simp add: OrderBook_init_def)
  ultimately show ?thesis
    by (simp add: on_add_a on_execute_a on_cancel_stale)
qed

text \<open>
  Claim C5 says that from every starting state \<open>on_replace\<close> returns what its add
  returned, and that the cancel phase is a no-op whenever \<open>old_oid\<close> is not live.
  When both identifiers are the same the cancel phase removes the order just added:
  \<open>on_replace\<close> of \<open>x\<close> by \<open>x\<close> on a book that does not hold \<open>x\<close> leaves the book as
  it was.  And the cancel phase throws when the level of \<open>old_oid\<close> is gone, as it is for
  \<open>a\<close> after four bids of \<open>2 ^ 30\<close> at one price, a bid of \<open>z\<close> at that price and its
  cancel: the add of \<open>n\<close> returns none, the replace of \<open>a\<close> by \<open>n\<close> ends in
  \<open>out_of_range\<close>.
\<close>

theorem replace_is_not_add_then_cancel:
  "snd (on_add OrderBook_init ''a'' CHR ''C'' ''BID'' 10 5) = book1 \<and>
   omap book1 ''x'' = None \<and>
   on_replace book1 ''x'' ''x'' CHR ''C'' ''BID'' 10 4 = (Inr None, book1) \<and>
   snd (on_add (snd (on_add (snd (on_add (snd (on_add OrderBook_init
      ''a'' CHR ''C'' ''BID'' 10 1073741824))
      ''b'' CHR ''I'' ''BID'' 10 1073741824))
      ''c'' CHR ''B'' ''BID'' 10 1073741824))
      ''d'' CHR ''M'' ''BID'' 10 1073741824) = book_wrapped \<and>
   on_cancel (snd (on_add book_wrapped ''z'' CHR ''C'' ''BID'' 10 5)) ''z'' = (Inr (), book_emptied) \<and>
   snd (on_add book_emptied ''k'' CHR ''A'' ''ASK'' 20 1) = book_k \<and>
   omap book_k ''a'' = Some \<lparr>m_sb = True, m_idx = 1000, m_vid = 0, m_qty = 1073741824\<rparr> \<and>
   fst (on_add book_k ''n'' CHR ''A'' ''ASK'' 20 1) = Inr None \<and>
   fst (on_replace book_k ''n'' ''a'' CHR ''A'' ''ASK'' 20 1) = Inl out_of_range"
proof -
  have "omap book1 ''x'' = None" by (simp add: book1_def)
  moreover have "omap book_k ''a'' = Some \<lparr>m_sb = True, m_idx = 1000, m_vid = 0, m_qty = 1073741824\<rparr>"
    by (simp add: book_k_def)
  ultimately show ?thesis
    by (simp add: snd_on_add_a on_replace_same_id on_add_wrapped on_cancel_z_wrapped snd_on_add_k
        on_add_n on_replace_n)
qed

text \<open>
  Claim C5, amended.  With a known venue, in a book whose tick set is the key set of its
  levels (every book the handlers produce), and with \<open>old_oid\<close> either absent from the
  index or resting at a level that is present, \<open>on_replace\<close> is \<open>on_add\<close> followed by
  \<open>on_cancel\<close>: it ends in the same state and returns what the add returned, which is
  a result and not an exception; when \<open>old_oid\<close> is not in the index and is not the new
  identifier, the state is that of the add alone.
\<close>

theorem replace_is_add_then_cancel:
  assumes "VENUE_MAP venue_code = Some v"
    and "ticks_are_keys (side_of b (side_b = ''BID''))"
    and "\<forall>m. omap b old_oid = Some m \<longrightarrow> levels (side_of b (m_sb m)) (m_idx m) \<noteq> None"
  shows "on_replace b new_oid old_oid venue_code side_b price q =
           add_then_cancel b new_oid old_oid venue_code side_b price q \<and>
         fst (on_replace b new_oid old_oid venue_code side_b price q) =
           fst (on_add b new_oid venue_code side_b price q) \<and>
         (\<exists>res. fst (on_add b new_oid venue_code side_b price q) = Inr res) \<and>
         (omap b old_oid = None \<and> old_oid \<noteq> new_oid \<longrightarrow>
            snd (on_replace b new_oid old_oid venue_code side_b price q) =
              snd (on_add b new_oid venue_code side_b price q))"
proof -
  define s where "s = (side_b = ''BID'')"
  define b1 where "b1 = snd (on_add b new_oid venue_code side_b price q)"
  obtain res where res: "fst (on_add b new_oid venue_code side_b price q) = Inr res"
    using on_add_returns_keys[OF assms(2,1)] by blast
  have b1: "b1 = (set_side b s (snd (SideBook_add (side_of b s) (p2i price) v q)))
       \<lparr>omap := (omap b)(new_oid \<mapsto> \<lparr>m_sb = s, m_idx = p2i price, m_vid = v, m_qty = q\<rparr>)\<rparr>"
    unfolding b1_def s_def by (rule snd_on_add[OF assms(1)])
  have lv: "levels (side_of b1 (m_sb m)) (m_idx m) \<noteq> None" if m: "omap b1 old_oid = Some m" for m
  proof (cases "old_oid = new_oid")
    case True
    then show ?thesis
      using m levels_after_add[of _ "p2i price" "p2i price"]
      by (auto simp: b1 side_of_omap_update side_of_set_side)
  next
    case False
    then have o: "omap b old_oid = Some m" using m by (simp add: b1 omap_set_side)
    then have "levels (side_of b (m_sb m)) (m_idx m) \<noteq> None" using assms(3) by simp
    then show ?thesis
      using levels_after_add[of "side_of b s" "m_idx m" "p2i price" v q]
      by (auto simp: b1 side_of_omap_update side_of_set_side)
  qed
  have c: "fst (on_cancel b1 old_oid) = Inr ()"
    by (rule on_cancel_returns) (rule lv)
  have add: "on_add b new_oid venue_code side_b price q = (Inr res, b1)"
    using res by (simp add: b1_def prod_eq_iff)
  obtain b2 where can: "on_cancel b1 old_oid = (Inr (), b2)"
    using c by (cases "on_cancel b1 old_oid") auto
  have noop: "b2 = b1" if "omap b old_oid = None" "old_oid \<noteq> new_oid"
    using that can by (simp add: on_cancel_def b1 omap_set_side)
  show ?thesis
    using noop by (simp add: on_replace_def add_then_cancel_def add can)
qed

theorem replace_is_add_then_cancel_witness:
  "on_replace book_x ''y'' ''x'' CHR ''A'' ''ASK'' (39 / 2) 4 =
     add_then_cancel book_x ''y'' ''x'' CHR ''A'' ''ASK'' (39 / 2) 4 \<and>
   on_replace book_x ''y'' ''x'' CHR ''A'' ''ASK'' (39 / 2) 4 =
     (Inr (Some \<lparr>new_price = 39 / 2, new_agg = 4, old_price = 20, old_agg = 4,
                 old_venue_string = ''A''\<rparr>), book_half) \<and>
   best_ask book_half = Some (39 / 2) \<and> omap book_half ''x'' = None \<and> omap book_half ''y'' \<noteq> None"
proof -
  have 1: "ticks_are_keys (side_of book_x (''ASK'' = ''BID''))"
    by (simp add: ticks_are_keys_def book_x_def side_of_def)
  have 2: "\<forall>m. omap book_x ''x'' = Some m \<longrightarrow> levels (side_of book_x (m_sb m)) (m_idx m) \<noteq> None"
    by (simp add: book_x_def side_of_def)
  from replace_is_add_then_cancel[OF VENUE_MAP_values(4) 1 2, of "''y''" "39 / 2" 4]
  have "on_replace book_x ''y'' ''x'' CHR ''A'' ''ASK'' (39 / 2) 4 =
     add_then_cancel book_x ''y'' ''x'' CHR ''A'' ''ASK'' (39 / 2) 4"
    by blast
  moreover have "best_ask book_half = Some (39 / 2) \<and> omap book_half ''x'' = None \<and> omap book_half ''y'' \<noteq> None"
    by (simp add: best_ask_def book_half_def best_price_def best_idx_def i2p_def TICK_def INT_MAX_def)
  ultimately show ?thesis
    using on_replace_half by simp
qed

text \<open>
  Claim C6 says that \<open>on_add\<close> followed by \<open>on_cancel\<close> of the same identifier restores
  every book.  After four bids of \<open>2 ^ 30\<close> at one price the level of that price has
  aggregate 0; a bid of \<open>z\<close> for 5 at that price and its cancel bring the aggregate back
  to 0, and the cancel erases the level and its tick.
\<close>

theorem add_then_cancel_erases_wrapped_level:
  "snd (on_add (snd (on_add (snd (on_add (snd (on_add OrderBook_init
      ''a'' CHR ''C'' ''BID'' 10 1073741824))
      ''b'' CHR ''I'' ''BID'' 10 1073741824))
      ''c'' CHR ''B'' ''BID'' 10 1073741824))
      ''d'' CHR ''M'' ''BID'' 10 1073741824) = book_wrapped \<and>
   omap book_wrapped ''z'' = None \<and>
   on_cancel (snd (on_add book_wrapped ''z'' CHR ''C'' ''BID'' 10 5)) ''z'' = (Inr (), book_emptied) \<and>
   ticks (bid_sb book_wrapped) = {1000} \<and> ticks (bid_sb book_emptied) = {}"
proof -
  have "omap book_wrapped ''z'' = None" "ticks (bid_sb book_wrapped) = {1000}"
    by (simp_all add: book_wrapped_def)
  moreover have "ticks (bid_sb book_emptied) = {}" by (simp add: book_emptied_def)
  ultimately show ?thesis by (simp add: on_add_wrapped on_cancel_z_wrapped)
qed

text \<open>
  Claim C6, amended.  In a book whose tick set is the key set of its levels (every book
  the handlers produce), when the level of the added tick is absent or has a non-zero
  aggregate and the identifier is not in the index, \<open>on_add\<close> followed at once by
  \<open>on_cancel\<close> of the same identifier returns normally and gives back the book it
  started from: both side books and the index.
\<close>

theorem add_then_cancel_restores:
  assumes "ticks_are_keys (side_of b (side_b = ''BID''))"
    and "\<forall>pl. levels (side_of b (side_b = ''BID'')) (p2i price) = Some pl \<longrightarrow> agg pl \<noteq> 0"
    and "omap b oid = None"
  shows "on_cancel (snd (on_add b oid venue_code side_b price q)) oid = (Inr (), b)"
proof (cases "VENUE_MAP venue_code")
  case None
  then show ?thesis using assms(3) by (simp add: on_add_def on_cancel_def)
next
  case (Some v)
  have "(omap b)(oid := None) = omap b" using assms(3) by (simp add: fun_upd_idem)
  then show ?thesis
    using remove_after_add_local[OF assms(1,2), of v q]
    by (simp add: snd_on_add[OF Some] on_cancel_def Let_def side_of_omap_update side_of_set_side
        set_side_omap_update set_side_twice set_side_same)
qed

theorem add_then_cancel_restores_witness:
  "omap (snd (on_add book1 ''z'' CHR ''I'' ''BID'' 10 7)) ''z'' \<noteq> None \<and>
   on_cancel (snd (on_add book1 ''z'' CHR ''I'' ''BID'' 10 7)) ''z'' = (Inr (), book1)"
proof -
  have 1: "ticks_are_keys (side_of book1 (''BID'' = ''BID''))"
    by (simp add: ticks_are_keys_def book1_def side_of_def)
  have 2: "\<forall>pl. levels (side_of book1 (''BID'' = ''BID'')) (p2i 10) = Some pl \<longrightarrow> agg pl \<noteq> 0"
    by (simp add: book1_def side_of_def p2i_values)
  have 3: "omap book1 ''z'' = None" by (simp add: book1_def)
  from add_then_cancel_restores[OF 1 2 3, of "CHR ''I''" 7]
  show ?thesis by (simp add: snd_on_add[OF VENUE_MAP_values(2)])
qed

text \<open>
  Claim C7 says that after every public operation every level present has a positive
  aggregate that is the sum of its venue quantities.  Quantities are 32-bit and wrap:
  four bids of \<open>2 ^ 30\<close> at one price, on four venues, leave a level with aggregate 0 in
  the book, its four venue quantities still \<open>2 ^ 30\<close> each.
\<close>

theorem invariant_breaks_on_wrap:
  "snd (on_add (snd (on_add (snd (on_add (snd (on_add OrderBook_init
      ''a'' CHR ''C'' ''BID'' 10 1073741824))
      ''b'' CHR ''I'' ''BID'' 10 1073741824))
      ''c'' CHR ''B'' ''BID'' 10 1073741824))
      ''d'' CHR ''M'' ''BID'' 10 1073741824) = book_wrapped \<and>
   levels (bid_sb book_wrapped) 1000 =
     Some \<lparr>vqty = [1073741824,1073741824,1073741824,1073741824,0,0,0,0,0,0,0,0,0,0], agg = 0\<rparr>"
  by (simp add: on_add_wrapped book_wrapped_def)

text \<open>
  Claim C7, amended.  Starting from the empty book, after every sequence of \<open>on_add\<close>,
  \<open>on_cancel\<close>, \<open>on_replace\<close> and \<open>on_execute\<close> in which every add has a positive
  quantity and keeps the aggregate of its level below \<open>2 ^ 32\<close>, for every side book:
  the tick set is the key set of the levels, every level present has a positive aggregate,
  the aggregate is the sum of the venue quantities, and no venue quantity is negative.
  (A batch within the same bound stays among these states: \<open>on_batch_reachable\<close>.)
\<close>

theorem invariant_after_every_operation:
  assumes "reachable b"
  shows "ticks (side_of b s) = dom (levels (side_of b s)) \<and>
         (\<forall>t pl. levels (side_of b s) t = Some pl \<longrightarrow>
            0 < agg pl \<and> unat (agg pl) = sum_list (map unat (vqty pl)) \<and>
            (\<forall>x\<in>set (vqty pl). 0 \<le> uint x))"
  using book_inv_sides[OF reachable_inv[OF assms], of s]
  by (auto simp: side_ok_def level_ok_def word_greater_zero_iff)

theorem invariant_after_every_operation_witness:
  "reachable book4 \<and> ticks (bid_sb book4) = {1000, 1001} \<and>
   dom (levels (bid_sb book4)) = {1000, 1001} \<and>
   levels (bid_sb book4) 1001 = Some \<lparr>vqty = [0,0,2,0,0,0,0,0,0,0,0,0,0,0], agg = 2\<rparr> \<and>
   unat (2::u32) = sum_list (map unat [0,0,2,0,0,0,0,0,0,0,0,0,0,0::u32])"
  using invariant_after_every_operation[OF reachable_book4, of True] reachable_book4
  by (auto simp: book4_def side_of_def)

text \<open>
  Claim C8.  \<open>on_cancel\<close> and \<open>on_execute\<close> of an identifier that is not in the index
  return none and leave the whole book as it is: the index, both side books, and with
  them the best bid and the best ask.
\<close>

theorem unknown_id_noop:
  "omap b oid = None \<Longrightarrow>
     on_cancel b oid = (Inr (), b) \<and> on_execute b oid q = (Inr None, b) \<and>
     best_bid (snd (on_cancel b oid)) = best_bid b \<and>
     best_ask (snd (on_cancel b oid)) = best_ask b \<and>
     best_bid (snd (on_execute b oid q)) = best_bid b \<and>
     best_ask (snd (on_execute b oid q)) = best_ask b"
  by (simp add: on_cancel_def on_execute_def)

theorem unknown_id_noop_witness:
  "on_cancel OrderBook_init ''ghost'' = (Inr (), OrderBook_init) \<and>
   on_execute OrderBook_init ''ghost'' 1 = (Inr None, OrderBook_init) \<and>
   best_bid OrderBook_init = None \<and> best_ask OrderBook_init = None \<and>
   on_cancel book3 ''ghost'' = (Inr (), book3) \<and>
   on_execute book3 ''ghost'' 1 = (Inr None, book3)"
  using unknown_id_noop[of OrderBook_init "''ghost''" 1] unknown_id_noop[of book3 "''ghost''" 1]
  by (simp add: OrderBook_init_def SideBook_init_def book3_def best_bid_def best_ask_def
      best_price_def best_idx_def sentinel_def)

text \<open>
  Claim C9.  The venue string of a level is strictly ascending by character code and
  consists of the codes of exactly the venues whose quantity at the level is positive.
\<close>

theorem venue_string_canonical:
  "sorted_wrt (\<lambda>a b. (of_char a :: nat) < of_char b) (venue_string pl) \<and>
   set (venue_string pl) = {VENUE_CODE ! i | i. i < NUM_VENUES \<and> 0 < vqty pl ! i}"
proof -
  let ?is = "filter (\<lambda>i. vqty pl ! i \<noteq> 0) [0..<NUM_VENUES]"
  have "inj_on (\<lambda>i. VENUE_CODE ! i) (set ?is)"
    using distinct_VENUE_CODE by (auto simp: inj_on_def nth_eq_iff_index_eq)
  then have "distinct (map (\<lambda>i. VENUE_CODE ! i) ?is)"
    by (simp add: distinct_map)
  then have "sorted_wrt (<) (venue_string pl)"
    by (simp add: venue_string_def strict_sorted_iff)
  then have "sorted_wrt (\<lambda>a b. (of_char a :: nat) < of_char b) (venue_string pl)"
    by (rule sorted_wrt_mono_rel[rotated]) (simp add: less_char_def)
  moreover have "set (venue_string pl) = {VENUE_CODE ! i | i. i < NUM_VENUES \<and> 0 < vqty pl ! i}"
    by (auto simp: venue_string_def word_greater_zero_iff)
  ultimately show ?thesis by simp
qed

theorem venue_string_canonical_witness:
  "venue_string \<lparr>vqty = [0,3,2,0,0,0,0,0,0,0,0,0,0,0], agg = 5\<rparr> = ''BI'' \<and>
   sorted_wrt (\<lambda>a b. (of_char a :: nat) < of_char b) ''BI''"
  using venue_string_canonical[of "\<lparr>vqty = [0,3,2,0,0,0,0,0,0,0,0,0,0,0], agg = 5\<rparr>"]
  by (simp add: venue_string_BI)

text \<open>
  Claim C10 says that \<open>on_execute\<close> with quantity 0 on a live order reports its level
  and changes nothing.  After four bids of \<open>2 ^ 30\<close> at one price the level of the live
  order \<open>a\<close> has aggregate 0: \<^verbatim>\<open>remove\<close> with quantity 0 erases the level and its
  tick, and the read of the level that follows throws.
\<close>

theorem execute_zero_erases_wrapped_level:
  "snd (on_add (snd (on_add (snd (on_add (snd (on_add OrderBook_init
      ''a'' CHR ''C'' ''BID'' 10 1073741824))
      ''b'' CHR ''I'' ''BID'' 10 1073741824))
      ''c'' CHR ''B'' ''BID'' 10 1073741824))
      ''d'' CHR ''M'' ''BID'' 10 1073741824) = book_wrapped \<and>
   omap book_wrapped ''a'' = Some \<lparr>m_sb = True, m_idx = 1000, m_vid = 0, m_qty = 1073741824\<rparr> \<and>
   on_execute book_wrapped ''a'' 0 = (Inl out_of_range, book_emptied) \<and>
   ticks (bid_sb book_wrapped) = {1000} \<and> ticks (bid_sb book_emptied) = {}"
proof -
  have "omap book_wrapped ''a'' = Some \<lparr>m_sb = True, m_idx = 1000, m_vid = 0, m_qty = 1073741824\<rparr>"
    "ticks (bid_sb book_wrapped) = {1000}"
    by (simp_all add: book_wrapped_def)
  moreover have "ticks (bid_sb book_emptied) = {}" by (simp add: book_emptied_def)
  ultimately show ?thesis by (simp add: on_add_wrapped on_execute_a_wrapped)
qed

text \<open>
  Claim C10, amended.  For an indexed order of positive quantity whose level is present
  with a non-zero aggregate (as it is in every book that satisfies the invariant:
  \<open>live_level_agg\<close>), \<open>on_execute\<close> with quantity 0 returns the report of that level as
  it stands (price, aggregate, venue quantities, venue string) and leaves the book, the
  index and the order's quantity unchanged.
\<close>

theorem execute_zero_is_query:
  assumes "omap b oid = Some m" and "m_qty m \<noteq> 0"
    and "levels (side_of b (m_sb m)) (m_idx m) = Some pl" and "agg pl \<noteq> 0"
  shows "on_execute b oid 0 =
             (Inr (Some \<lparr>exec_price = i2p (m_idx m), level_remaining = agg pl,
                         per_venue_qty = vqty pl, venue_str = venue_string pl\<rparr>), b)"
proof -
  have om: "(omap b)(oid \<mapsto> m) = omap b" using assms(1) by (simp add: fun_upd_idem)
  show ?thesis
    using assms
    by (simp add: on_execute_def Let_def om SideBook_remove_def adjust_zero side_of_omap_update
        fun_upd_idem set_side_same)
qed

theorem execute_zero_is_query_witness:
  "on_execute book3 ''b'' 0 =
     (Inr (Some \<lparr>exec_price = 1001 / 100, level_remaining = 5,
                 per_venue_qty = [0,3,2,0,0,0,0,0,0,0,0,0,0,0], venue_str = ''BI''\<rparr>), book3)"
proof -
  have 1: "omap book3 ''b'' = Some \<lparr>m_sb = True, m_idx = 1001, m_vid = 1, m_qty = 3\<rparr>"
    by (simp add: book3_def)
  have 2: "levels (side_of book3 True) 1001 = Some \<lparr>vqty = [0,3,2,0,0,0,0,0,0,0,0,0,0,0], agg = 5\<rparr>"
    by (simp add: book3_def side_of_def)
  from execute_zero_is_query[OF 1 _ _ _, of "\<lparr>vqty = [0,3,2,0,0,0,0,0,0,0,0,0,0,0], agg = 5\<rparr>"] 2
  show ?thesis
    by (simp add: venue_string_BI i2p_def TICK_def)
qed

end
